theory Spec2Isabelle
  imports Complex_Main
begin

section \<open>Text and characters\<close>

text \<open>
  The program is JavaScript. A JavaScript string is modelled as a HOL \<open>string\<close>, one
  \<open>char\<close> per UTF-16 code unit; the model therefore covers texts whose code units are
  all below 256. On that range the white space of \<open>String.prototype.trim\<close> and of the
  regular-expression class \<open>\s\<close> is TAB, LF, VT, FF, CR, SPACE and NBSP, \<open>\d\<close> is
  \<open>0\<close> to \<open>9\<close>, \<open>\w\<close> is \<open>[A-Za-z0-9_]\<close>, and \<open>toLowerCase\<close> moves \<open>A\<close>-\<open>Z\<close> and the
  upper-case letters of Latin-1 down by 32.

  JavaScript numbers are IEEE doubles. The model computes finite values exactly, as
  integers (\<open>int\<close>) and decimals (\<open>rat\<close>), and it has the two infinities that a decimal
  text overflows to; \<open>None\<close> stands for \<open>null\<close> and for \<open>NaN\<close>. The model and the source
  agree wherever the decimal text denotes a double exactly (in particular on integers
  below \<open>2^53\<close>) and on which texts overflow; elsewhere the source holds the nearest
  double of the value the model holds.
\<close>

definition dquote :: char where
  "dquote = CHR 0x22"

definition comma :: char where
  "comma = CHR '',''"

definition LF :: char where
  "LF = CHR 0x0A"

definition CR :: char where
  "CR = CHR 0x0D"

definition isSpace :: "char \<Rightarrow> bool" where
  "isSpace c \<longleftrightarrow> c \<in> set [CHR 0x09, CHR 0x0A, CHR 0x0B, CHR 0x0C, CHR 0x0D, CHR 0x20, CHR 0xA0]"

definition isDigit :: "char \<Rightarrow> bool" where
  "isDigit c \<longleftrightarrow> c \<in> set ''0123456789''"

definition isWordChar :: "char \<Rightarrow> bool" where
  "isWordChar c \<longleftrightarrow>
     c \<in> set ''abcdefghijklmnopqrstuvwxyzABCDEFGHIJKLMNOPQRSTUVWXYZ0123456789_''"

text \<open>\<open>String.prototype.trim\<close>: white space is removed at both ends.\<close>

definition trim :: "string \<Rightarrow> string" where
  "trim s = rev (dropWhile isSpace (rev (dropWhile isSpace s)))"

text \<open>\<open>toLowerCase\<close> on one code unit below 256.\<close>

definition toLowerChar :: "char \<Rightarrow> char" where
  "toLowerChar c =
     (let n = (of_char c :: nat)
      in if (65 \<le> n \<and> n \<le> 90) \<or> (192 \<le> n \<and> n \<le> 222 \<and> n \<noteq> 215)
         then char_of (n + 32) else c)"

definition toLowerCase :: "string \<Rightarrow> string" where
  "toLowerCase s = map toLowerChar s"

text \<open>
  \<open>normalizeNewlines\<close>: \<open>replaceAll('\r\n', '\n')\<close>, then \<open>replaceAll('\r', '\n')\<close>.
\<close>

fun replaceCRLF :: "string \<Rightarrow> string" where
  "replaceCRLF [] = []"
| "replaceCRLF [c] = [c]"
| "replaceCRLF (c # d # cs) =
     (if c = CR \<and> d = LF then LF # replaceCRLF cs else c # replaceCRLF (d # cs))"

definition replaceCR :: "string \<Rightarrow> string" where
  "replaceCR s = map (\<lambda>c. if c = CR then LF else c) s"

definition normalizeNewlines :: "string \<Rightarrow> string" where
  "normalizeNewlines s = replaceCR (replaceCRLF s)"

section \<open>The lexer: \<open>parseCsvText\<close>\<close>

datatype csv_error = TooManyColumns nat | TooManyRows nat

type_synonym row = "string list"

record lexer =
  rows :: "row list"
  row :: row
  field :: string
  inQuotes :: bool

definition lexer_init :: lexer where
  "lexer_init = \<lparr>rows = [], row = [], field = [], inQuotes = False\<rparr>"

definition pushField :: "lexer \<Rightarrow> lexer" where
  "pushField st = st\<lparr>row := row st @ [field st], field := []\<rparr>"

text \<open>
  The loop of \<open>pushRow\<close>:
  \<open>while (row.length && String(row[row.length - 1] ?? '').trim() === '') row.pop()\<close>.
\<close>

function popBlank :: "row \<Rightarrow> row" where
  "popBlank r = (if r \<noteq> [] \<and> trim (last r) = [] then popBlank (butlast r) else r)"
  by pat_completeness auto
termination
  by (relation "measure length") auto

declare popBlank.simps [simp del]

definition pushRow :: "lexer \<Rightarrow> lexer" where
  "pushRow st =
     (let r = popBlank (row st)
      in st\<lparr>rows := (if r \<noteq> [] then rows st @ [r] else rows st), row := []\<rparr>)"

text \<open>
  The \<open>for\<close> loop over the characters. The index \<open>i\<close> of the source is the position of the
  head of the remaining text; the extra \<open>i++\<close> after a doubled quote consumes two
  characters. A \<open>throw\<close> is the value \<open>Inl\<close>.
\<close>

fun lexLoop :: "nat \<Rightarrow> nat \<Rightarrow> lexer \<Rightarrow> string \<Rightarrow> csv_error + lexer" where
  "lexLoop maxRows maxCols st [] = Inr st"
| "lexLoop maxRows maxCols st (ch # cs) =
     (if inQuotes st then
        (if ch = dquote then
           (if cs \<noteq> [] \<and> hd cs = dquote
            then lexLoop maxRows maxCols (st\<lparr>field := field st @ [dquote]\<rparr>) (tl cs)
            else lexLoop maxRows maxCols (st\<lparr>inQuotes := False\<rparr>) cs)
         else lexLoop maxRows maxCols (st\<lparr>field := field st @ [ch]\<rparr>) cs)
      else if ch = dquote then lexLoop maxRows maxCols (st\<lparr>inQuotes := True\<rparr>) cs
      else if ch = comma then
        (let st' = pushField st
         in if length (row st') > maxCols then Inl (TooManyColumns maxCols)
            else lexLoop maxRows maxCols st' cs)
      else if ch = LF then
        (let st' = pushRow (pushField st)
         in if length (rows st') > maxRows then Inl (TooManyRows maxRows)
            else lexLoop maxRows maxCols st' cs)
      else lexLoop maxRows maxCols (st\<lparr>field := field st @ [ch]\<rparr>) cs)"

definition parseCsvText :: "nat \<Rightarrow> nat \<Rightarrow> string \<Rightarrow> csv_error + row list" where
  "parseCsvText maxRows maxCols text =
     (case lexLoop maxRows maxCols lexer_init (normalizeNewlines text) of
        Inl e \<Rightarrow> Inl e
      | Inr st \<Rightarrow> Inr (rows (pushRow (pushField st))))"

section \<open>Cell access and small string operations\<close>

text \<open>
  \<open>r[j]\<close> on an array of strings is \<open>undefined\<close> out of range; \<open>String(v ?? '')\<close> turns
  \<open>undefined\<close> into the empty string.
\<close>

definition cell :: "row \<Rightarrow> nat \<Rightarrow> string option" where
  "cell r j = (if j < length r then Some (r ! j) else None)"

definition str :: "string option \<Rightarrow> string" where
  "str v = (case v of None \<Rightarrow> [] | Some s \<Rightarrow> s)"

text \<open>\<open>x || null\<close> on a string: the empty string is falsy.\<close>

definition orNull :: "string \<Rightarrow> string option" where
  "orNull s = (if s = [] then None else Some s)"

definition startsWith :: "string \<Rightarrow> string \<Rightarrow> bool" where
  "startsWith s p \<longleftrightarrow> take (length p) s = p"

fun includesStr :: "string \<Rightarrow> string \<Rightarrow> bool" where
  "includesStr [] sub = (sub = [])"
| "includesStr (c # cs) sub = (startsWith (c # cs) sub \<or> includesStr cs sub)"

text \<open>\<open>s.split(sep)\<close> for a one-character separator, and \<open>parts.join(sep)\<close>.\<close>

fun splitStr :: "char \<Rightarrow> string \<Rightarrow> string list" where
  "splitStr sep [] = [[]]"
| "splitStr sep (c # cs) =
     (if c = sep then [] # splitStr sep cs
      else (case splitStr sep cs of p # ps \<Rightarrow> (c # p) # ps | [] \<Rightarrow> [[c]]))"

fun joinStr :: "char \<Rightarrow> string list \<Rightarrow> string" where
  "joinStr sep [] = []"
| "joinStr sep [p] = p"
| "joinStr sep (p # q # ps) = p @ sep # joinStr sep (q # ps)"

text \<open>\<open>s.replace(/\s+/g, ' ')\<close>: every maximal run of white space becomes one space.\<close>

function collapseSpaces :: "string \<Rightarrow> string" where
  "collapseSpaces [] = []"
| "collapseSpaces (c # cs) =
     (if isSpace c then CHR 0x20 # collapseSpaces (dropWhile isSpace cs)
      else c # collapseSpaces cs)"
  by pat_completeness auto
termination
  by (relation "measure length") (auto simp: length_dropWhile_le less_Suc_eq_le)

text \<open>The closure \<open>norm\<close> of \<open>parseHistoricalResultsByCountCsv\<close>.\<close>

definition normCell :: "string option \<Rightarrow> string" where
  "normCell v = trim (collapseSpaces (str v))"

section \<open>Cell normalizers\<close>

definition digitVal :: "char \<Rightarrow> nat" where
  "digitVal c = of_char c - 48"

definition digitsVal :: "string \<Rightarrow> nat" where
  "digitsVal ds = foldl (\<lambda>n c. 10 * n + digitVal c) 0 ds"

text \<open>
  The pattern \<open>-?\d+(?:\.\d+)?\<close> tried at the head of a text; the result is the matched
  text. The quantifiers are greedy and nothing follows the pattern, so the match is the
  longest one.
\<close>

definition matchSignedDecimal :: "string \<Rightarrow> string option" where
  "matchSignedDecimal s =
     (let sg = (if s \<noteq> [] \<and> hd s = CHR ''-'' then ''-'' else []);
          s1 = drop (length sg) s;
          ip = takeWhile isDigit s1;
          r = dropWhile isDigit s1;
          fp = (if r \<noteq> [] \<and> hd r = CHR ''.'' then takeWhile isDigit (tl r) else [])
      in if ip = [] then None
         else if fp \<noteq> [] then Some (sg @ ip @ ''.'' @ fp)
         else Some (sg @ ip))"

text \<open>
  An unanchored \<open>s.match(re)\<close>: the pattern is tried at position 0, 1, ... and the first
  position where it matches wins. \<open>m\<close> is the pattern tried at the head of a text.
\<close>

fun search :: "(string \<Rightarrow> 'a option) \<Rightarrow> string \<Rightarrow> 'a option" where
  "search m [] = m []"
| "search m (c # cs) = (case m (c # cs) of Some r \<Rightarrow> Some r | None \<Rightarrow> search m cs)"

text \<open>\<open>isNumericLike\<close>: the anchored test \<open>/^-?\d+(?:\.\d+)?$/\<close> on the trimmed text.\<close>

definition isNumericLike :: "string option \<Rightarrow> bool" where
  "isNumericLike v = (let s = trim (str v) in s \<noteq> [] \<and> matchSignedDecimal s = Some s)"

text \<open>
  A JavaScript number that is not \<open>NaN\<close>: a finite value, \<open>Infinity\<close> or \<open>-Infinity\<close>. A
  decimal text overflows to an infinity when its value is at least \<open>2^1024 - 2^970\<close>,
  the point from which rounding to a double no longer gives a finite one; the bound is
  written out as a numeral.
\<close>

datatype 'a jsnum = Fin 'a | PosInf | NegInf

definition overflows :: "rat \<Rightarrow> bool" where
  "overflows x \<longleftrightarrow>
     179769313486231580793728971405303415079934132710037826936173778980444968292764750946649017977587207096330286416692887910946555547851940402630657488671505820681908902000708383676273854845817711531764475730270069855571366959622842914819860834936475292719074168444365510704342711559699508093042880177904174497792
       \<le> \<bar>x\<bar>"

text \<open>\<open>Number.isFinite(n) ? n : null\<close>, with \<open>NaN\<close> as \<open>None\<close>.\<close>

definition finiteOrNull :: "'a jsnum option \<Rightarrow> 'a option" where
  "finiteOrNull v = (case v of Some (Fin x) \<Rightarrow> Some x | _ \<Rightarrow> None)"

text \<open>
  \<open>parseInt(s, 10)\<close>: leading white space, an optional sign, then the longest run of
  digits; \<open>NaN\<close> (here \<open>None\<close>) when there is no digit.
\<close>

definition parseInt :: "string \<Rightarrow> int jsnum option" where
  "parseInt s0 =
     (let s = dropWhile isSpace s0;
          neg = (s \<noteq> [] \<and> hd s = CHR ''-'');
          s1 = (if s \<noteq> [] \<and> (hd s = CHR ''-'' \<or> hd s = CHR ''+'') then tl s else s);
          ds = takeWhile isDigit s1;
          n = int (digitsVal ds)
      in if ds = [] then None
         else if overflows (of_int n) then Some (if neg then NegInf else PosInf)
         else Some (Fin (if neg then - n else n)))"

text \<open>
  \<open>parseFloat(s)\<close>: leading white space, an optional sign, then the longest prefix that is a
  decimal literal: the word \<open>Infinity\<close>, or digits, an optional fraction and an optional
  exponent. \<open>NaN\<close> is \<open>None\<close>.
\<close>

definition exponentPart :: "string \<Rightarrow> int" where
  "exponentPart r =
     (if r \<noteq> [] \<and> (hd r = CHR ''e'' \<or> hd r = CHR ''E'') then
        (let r1 = tl r;
             neg = (r1 \<noteq> [] \<and> hd r1 = CHR ''-'');
             r2 = (if r1 \<noteq> [] \<and> (hd r1 = CHR ''-'' \<or> hd r1 = CHR ''+'') then tl r1 else r1);
             ds = takeWhile isDigit r2
         in if ds = [] then 0 else if neg then - int (digitsVal ds) else int (digitsVal ds))
      else 0)"

definition scale10 :: "rat \<Rightarrow> int \<Rightarrow> rat" where
  "scale10 x e = (if e \<ge> 0 then x * 10 ^ nat e else x / 10 ^ nat (- e))"

definition parseFloat :: "string \<Rightarrow> rat jsnum option" where
  "parseFloat s0 =
     (let s = dropWhile isSpace s0;
          neg = (s \<noteq> [] \<and> hd s = CHR ''-'');
          s1 = (if s \<noteq> [] \<and> (hd s = CHR ''-'' \<or> hd s = CHR ''+'') then tl s else s);
          ip = takeWhile isDigit s1;
          r1 = dropWhile isDigit s1;
          dot = (r1 \<noteq> [] \<and> hd r1 = CHR ''.'');
          fp = (if dot then takeWhile isDigit (tl r1) else []);
          r2 = (if dot then dropWhile isDigit (tl r1) else r1)
      in if startsWith s1 ''Infinity'' then Some (if neg then NegInf else PosInf)
         else if ip = [] \<and> fp = [] then None
         else
           (let m = of_int (int (digitsVal ip)) + of_int (int (digitsVal fp)) / 10 ^ length fp;
                x = scale10 m (exponentPart r2)
            in if overflows x then Some (if neg then NegInf else PosInf)
               else Some (Fin (if neg then - x else x))))"

definition parseTempFString :: "string option \<Rightarrow> rat option" where
  "parseTempFString v =
     (case search matchSignedDecimal (trim (str v)) of
        None \<Rightarrow> None
      | Some m \<Rightarrow> finiteOrNull (parseFloat m))"

definition parseMaybeInt :: "string option \<Rightarrow> int option" where
  "parseMaybeInt v =
     (let s = trim (str v) in if s = [] then None else finiteOrNull (parseInt s))"

definition parseMaybeFloat :: "string option \<Rightarrow> rat option" where
  "parseMaybeFloat v =
     (let s = trim (str v) in if s = [] then None else finiteOrNull (parseFloat s))"

text \<open>\<open>parseLatLong\<close> returns the pair \<open>{Lat, Lon}\<close>.\<close>

definition parseLatLong :: "string option \<Rightarrow> rat option \<times> rat option" where
  "parseLatLong latLongStr =
     (let s = trim (str latLongStr)
      in if s = [] \<or> \<not> includesStr s ''/'' then (None, None)
         else
           (let parts = splitStr (CHR ''/'') s
            in (finiteOrNull (parseFloat (trim (str (cell parts 0)))),
                finiteOrNull (parseFloat (trim (str (cell parts 1)))))))"

section \<open>The composite-header parser: \<open>parseYearHeaderCell\<close>\<close>

record yearHeader =
  yh_Year :: "int option"
  yh_CountIndex :: "int option"
  yh_CountDate :: "string option"
  yh_NumParticipants :: "int jsnum option"
  yh_NumSpeciesReported :: "int jsnum option"
  yh_TotalHrs :: "rat jsnum option"

text \<open>A literal at the head of a text: the rest of the text after it, if it is there.\<close>

definition lit :: "string \<Rightarrow> string \<Rightarrow> string option" where
  "lit p s = (if startsWith s p then Some (drop (length p) s) else None)"

text \<open>\<open>(19\d{2}|20\d{2})\<close> on a text of four characters.\<close>

definition isYearToken :: "string \<Rightarrow> bool" where
  "isYearToken y \<longleftrightarrow>
     length y = 4 \<and> (take 2 y = ''19'' \<or> take 2 y = ''20'') \<and> isDigit (y ! 2) \<and> isDigit (y ! 3)"

text \<open>
  \<open>/^\s*(19\d{2}|20\d{2})\s*\[(\d+)\]/\<close> on the first line: the two groups, if it matches.
\<close>

definition matchYearIndex :: "string \<Rightarrow> (string \<times> string) option" where
  "matchYearIndex head =
     (let s1 = dropWhile isSpace head;
          y = take 4 s1;
          s2 = dropWhile isSpace (drop 4 s1)
      in if \<not> isYearToken y then None
         else (case lit ''['' s2 of
                 None \<Rightarrow> None
               | Some s3 \<Rightarrow>
                   (let ds = takeWhile isDigit s3
                    in if ds \<noteq> [] \<and> startsWith (dropWhile isDigit s3) '']''
                       then Some (y, ds) else None)))"

text \<open>
  \<open>[0-9]{1,2}\/\<close> at the head of a text: one or two digits and then the slash; the
  result is the digits and the text after the slash.
\<close>

definition matchDayOrMonth :: "string \<Rightarrow> (string \<times> string) option" where
  "matchDayOrMonth s =
     (let ds = takeWhile isDigit s
      in if (length ds = 1 \<or> length ds = 2) \<and> startsWith (dropWhile isDigit s) ''/''
         then Some (ds, tl (dropWhile isDigit s)) else None)"

text \<open>\<open>/Count Date:\s*([0-9]{1,2}\/[0-9]{1,2}\/[0-9]{4})/\<close> at the head of a text.\<close>

definition matchCountDate :: "string \<Rightarrow> string option" where
  "matchCountDate s =
     (case lit ''Count Date:'' s of
        None \<Rightarrow> None
      | Some s1 \<Rightarrow>
          (case matchDayOrMonth (dropWhile isSpace s1) of
             None \<Rightarrow> None
           | Some (a, s2) \<Rightarrow>
               (case matchDayOrMonth s2 of
                  None \<Rightarrow> None
                | Some (b, s3) \<Rightarrow>
                    (if length (take 4 s3) = 4 \<and> list_all isDigit (take 4 s3)
                     then Some (a @ ''/'' @ b @ ''/'' @ take 4 s3) else None))))"

text \<open>
  \<open>/#\s*LABEL\s*([0-9]+)/\<close> at the head of a text, for the labels \<open>Participants:\<close> and
  \<open>Species Reported:\<close>.
\<close>

definition matchHashLabel :: "string \<Rightarrow> string \<Rightarrow> string option" where
  "matchHashLabel label s =
     (case lit ''#'' s of
        None \<Rightarrow> None
      | Some s1 \<Rightarrow>
          (case lit label (dropWhile isSpace s1) of
             None \<Rightarrow> None
           | Some s2 \<Rightarrow>
               (let ds = takeWhile isDigit (dropWhile isSpace s2)
                in if ds = [] then None else Some ds)))"

text \<open>\<open>/Total Hrs\.:\s*([0-9]+(?:\.[0-9]+)?)/\<close> at the head of a text.\<close>

definition matchTotalHrs :: "string \<Rightarrow> string option" where
  "matchTotalHrs s =
     (case lit ''Total Hrs.:'' s of
        None \<Rightarrow> None
      | Some s1 \<Rightarrow>
          (let s2 = dropWhile isSpace s1;
               ip = takeWhile isDigit s2;
               r = dropWhile isDigit s2;
               fp = (if r \<noteq> [] \<and> hd r = CHR ''.'' then takeWhile isDigit (tl r) else [])
           in if ip = [] then None
              else if fp \<noteq> [] then Some (ip @ ''.'' @ fp)
              else Some ip))"

definition parseYearHeaderCell :: "string \<Rightarrow> yearHeader option" where
  "parseYearHeaderCell cell0 =
     (let s = normalizeNewlines cell0;
          head = hd (splitStr LF s)
      in case matchYearIndex head of
           None \<Rightarrow> None
         | Some (y, idx) \<Rightarrow>
             Some \<lparr>yh_Year = finiteOrNull (parseInt y),
                   yh_CountIndex = finiteOrNull (parseInt idx),
                   yh_CountDate = search matchCountDate s,
                   yh_NumParticipants =
                     (case search (matchHashLabel ''Participants:'') s of
                        None \<Rightarrow> None | Some ds \<Rightarrow> parseInt ds),
                   yh_NumSpeciesReported =
                     (case search (matchHashLabel ''Species Reported:'') s of
                        None \<Rightarrow> None | Some ds \<Rightarrow> parseInt ds),
                   yh_TotalHrs =
                     (case search matchTotalHrs s of
                        None \<Rightarrow> None | Some ds \<Rightarrow> parseFloat ds)\<rparr>)"

section \<open>The extraction: \<open>parseHistoricalResultsByCountCsv\<close>\<close>

subsection \<open>The records of the result\<close>

record count_info =
  CountName :: "string option"
  CountCode :: "string option"
  CountId :: "int option"
  Lat :: "rat option"
  Lon :: "rat option"
  CompilerFirstName :: "string option"
  CompilerLastName :: "string option"
  CompilerName :: "string option"
  CompilerEmail :: "string option"

record weather_rec =
  w_CountIndex :: int
  LowTempF :: "rat option"
  HighTempF :: "rat option"
  AMClouds :: string
  PMClouds :: string
  AMRain :: string
  PMRain :: string
  AMSnow :: string
  PMSnow :: string

record pe_rec =
  pe_CountIndex :: int
  pe_CountDate :: "string option"
  pe_Year :: "int option"
  pe_NumParticipants :: "int jsnum option"
  pe_NumHours :: "rat jsnum option"
  pe_NumSpeciesReported :: "int jsnum option"

record meta_rec =
  m_CountIndex :: int
  m_Year :: int
  m_CountDate :: "string option"

text \<open>
  One record of \<open>speciesTable\<close>: the property \<open>Species\<close> and one property per year, kept
  here as the list of (year, count) pairs in the order of \<open>years\<close>.
\<close>

record species_rec =
  Species :: string
  byYear :: "(int \<times> int) list"

record extraction_result =
  countInfo :: count_info
  meta :: "meta_rec list"
  participantsEffort :: "pe_rec list"
  weatherRaw :: "weather_rec list"
  speciesTable :: "species_rec list"
  years :: "int list"

subsection \<open>Compiler and circle metadata\<close>

definition countInfo_init :: count_info where
  "countInfo_init =
     \<lparr>CountName = None, CountCode = None, CountId = None, Lat = None, Lon = None,
      CompilerFirstName = None, CompilerLastName = None, CompilerName = None,
      CompilerEmail = None\<rparr>"

text \<open>
  The loops \<open>for (i = 0; i < Math.min(rows.length, N); i++)\<close> read \<open>rows[i]\<close> and
  \<open>rows[i + 1] || []\<close>: they run over the first \<open>N\<close> pairs of a row and its successor.
\<close>

definition withNext :: "row list \<Rightarrow> (row \<times> row) list" where
  "withNext rs = zip rs (tl rs @ [[]])"

text \<open>
  \<open>headerIndexes\<close>: the column recorded for a set of header tokens is the last column
  whose normalized, lower-cased cell is one of them.
\<close>

definition headerIndex :: "row \<Rightarrow> string list \<Rightarrow> nat option" where
  "headerIndex r keys =
     (case filter (\<lambda>j. toLowerCase (normCell (cell r j)) \<in> set keys) [0..<length r] of
        [] \<Rightarrow> None
      | j # js \<Rightarrow> Some (last (j # js)))"

text \<open>\<open>norm(v[j]) || old\<close>, when the header token was found at column \<open>j\<close>.\<close>

definition headerValue :: "row \<Rightarrow> nat option \<Rightarrow> string option \<Rightarrow> string option" where
  "headerValue v idx old =
     (case idx of
        None \<Rightarrow> old
      | Some j \<Rightarrow> (if normCell (cell v j) = [] then old else Some (normCell (cell v j))))"

definition headerRow :: "row \<Rightarrow> row \<Rightarrow> count_info \<Rightarrow> count_info" where
  "headerRow r v ci =
     (let first = headerIndex r [''compilerfirstname''];
          lastName = headerIndex r [''compilerlastname''];
          email = headerIndex r [''compileremail'', ''email''];
          name = headerIndex r [''compilername'', ''compiler'']
      in ci\<lparr>CompilerFirstName := headerValue v first (CompilerFirstName ci),
            CompilerLastName := headerValue v lastName (CompilerLastName ci),
            CompilerEmail := headerValue v email (CompilerEmail ci),
            CompilerName := headerValue v name (CompilerName ci)\<rparr>)"

definition firstNonEmptyAfter :: "row \<Rightarrow> nat \<Rightarrow> string option" where
  "firstNonEmptyAfter r idx =
     find (\<lambda>s. s \<noteq> []) (map (\<lambda>c. normCell (Some c)) (drop (idx + 1) r))"

text \<open>\<open>cell.split(':').slice(1).join(':').trim() || firstNonEmptyAfter(r, j)\<close>.\<close>

definition inlineValue :: "row \<Rightarrow> nat \<Rightarrow> string \<Rightarrow> string option" where
  "inlineValue r j c =
     (let inline = trim (joinStr (CHR '':'') (drop 1 (splitStr (CHR '':'') c)))
      in if inline \<noteq> [] then Some inline else firstNonEmptyAfter r j)"

definition inlineCell :: "row \<Rightarrow> count_info \<Rightarrow> nat \<Rightarrow> count_info" where
  "inlineCell r ci j =
     (let c = normCell (cell r j);
          lower = toLowerCase c
      in if c = [] then ci
         else if includesStr lower ''compiler email''
                 \<or> (includesStr lower ''compiler'' \<and> includesStr lower ''email'') then
           (case inlineValue r j c of
              None \<Rightarrow> ci
            | Some v \<Rightarrow> if v = [] then ci else ci\<lparr>CompilerEmail := Some v\<rparr>)
         else if startsWith lower ''compiler'' \<or> startsWith lower ''current compiler'' then
           (case inlineValue r j c of
              None \<Rightarrow> ci
            | Some v \<Rightarrow> if v = [] then ci else ci\<lparr>CompilerName := Some v\<rparr>)
         else ci)"

definition compilerRow :: "count_info \<Rightarrow> row \<times> row \<Rightarrow> count_info" where
  "compilerRow ci rv =
     (case rv of (r, v) \<Rightarrow>
        if r = [] then ci
        else foldl (inlineCell r) (headerRow r v ci) [0..<length r])"

definition scanCompiler :: "row list \<Rightarrow> count_info \<Rightarrow> count_info" where
  "scanCompiler rs ci = foldl compilerRow ci (take 80 (withNext rs))"

definition isCircleSentinel :: "row \<times> row \<Rightarrow> bool" where
  "isCircleSentinel rv \<longleftrightarrow> cell (fst rv) 0 = Some ''CircleName'' \<and> cell (fst rv) 1 = Some ''Abbrev''"

definition scanCircle :: "row list \<Rightarrow> count_info \<Rightarrow> count_info" where
  "scanCircle rs ci =
     (case find isCircleSentinel (take 50 (withNext rs)) of
        None \<Rightarrow> ci
      | Some (r, v) \<Rightarrow>
          (let ll = parseLatLong (cell v 2)
           in ci\<lparr>CountName := orNull (trim (str (cell v 0))),
                 CountCode := orNull (trim (str (cell v 1))),
                 Lat := fst ll, Lon := snd ll\<rparr>))"

subsection \<open>Weather and participation/effort sections\<close>

definition isWeatherSentinel :: "row \<Rightarrow> bool" where
  "isWeatherSentinel r \<longleftrightarrow>
     cell r 0 = Some ''CountYear3'' \<and> includesStr (toLowerCase (str (cell r 1))) ''lowtemp''"

definition weatherOf :: "int \<Rightarrow> row \<Rightarrow> weather_rec" where
  "weatherOf idx d =
     \<lparr>w_CountIndex = idx,
      LowTempF = parseTempFString (cell d 1),
      HighTempF = parseTempFString (cell d 2),
      AMClouds = str (cell d 3),
      PMClouds = str (cell d 4),
      AMRain = str (cell d 5),
      PMRain = str (cell d 6),
      AMSnow = str (cell d 7),
      PMSnow = str (cell d 8)\<rparr>"

text \<open>
  The inner loop over the rows after the sentinel: \<open>break\<close> ends it, \<open>continue\<close> goes to
  the next row, \<open>!CountIndex\<close> holds for \<open>null\<close> and for \<open>0\<close>.
\<close>

fun weatherRows :: "row list \<Rightarrow> weather_rec list" where
  "weatherRows [] = []"
| "weatherRows (d # ds) =
     (if d = [] then []
      else if \<not> isNumericLike (cell d 0) then []
      else (case parseMaybeInt (cell d 0) of
              None \<Rightarrow> weatherRows ds
            | Some idx \<Rightarrow> if idx = 0 then weatherRows ds else weatherOf idx d # weatherRows ds))"

text \<open>
  The outer loop stops at the first sentinel row (\<open>break\<close> after the inner loop); with no
  sentinel the list stays empty.
\<close>

definition scanWeather :: "row list \<Rightarrow> weather_rec list" where
  "scanWeather rs =
     (case dropWhile (\<lambda>r. \<not> isWeatherSentinel r) rs of
        [] \<Rightarrow> []
      | r # ds \<Rightarrow> weatherRows ds)"

definition isEffortSentinel :: "row \<Rightarrow> bool" where
  "isEffortSentinel r \<longleftrightarrow> cell r 0 = Some ''CountYear5''"

definition effortOf :: "int \<Rightarrow> row \<Rightarrow> pe_rec" where
  "effortOf idx d =
     \<lparr>pe_CountIndex = idx,
      pe_CountDate = orNull (trim (str (cell d 1))),
      pe_Year = None,
      pe_NumParticipants = map_option Fin (parseMaybeInt (cell d 2)),
      pe_NumHours = map_option Fin (parseMaybeFloat (cell d 3)),
      pe_NumSpeciesReported = map_option Fin (parseMaybeInt (cell d 4))\<rparr>"

fun effortRows :: "row list \<Rightarrow> pe_rec list" where
  "effortRows [] = []"
| "effortRows (d # ds) =
     (if d = [] then []
      else if \<not> isNumericLike (cell d 0) then []
      else (case parseMaybeInt (cell d 0) of
              None \<Rightarrow> effortRows ds
            | Some idx \<Rightarrow> if idx = 0 then effortRows ds else effortOf idx d # effortRows ds))"

definition scanEffort :: "row list \<Rightarrow> pe_rec list" where
  "scanEffort rs =
     (case dropWhile (\<lambda>r. \<not> isEffortSentinel r) rs of
        [] \<Rightarrow> []
      | r # ds \<Rightarrow> effortRows ds)"

subsection \<open>The species section\<close>

text \<open>
  The accumulators of the species loop. \<open>metaSeen\<close> is a \<open>Set\<close>; \<open>countsBySpecies\<close> is a
  \<open>Map\<close> of \<open>Map\<close>s, kept as association lists in insertion order.
\<close>

record species_state =
  ss_meta :: "meta_rec list"
  ss_metaSeen :: "int set"
  ss_participantsEffort :: "pe_rec list"
  ss_countsBySpecies :: "(string \<times> (int \<times> int) list) list"

text \<open>\<open>Map.prototype.set\<close>: a key already present keeps its place and takes the new value.\<close>

fun mapSet :: "'k \<Rightarrow> 'v \<Rightarrow> ('k \<times> 'v) list \<Rightarrow> ('k \<times> 'v) list" where
  "mapSet k v [] = [(k, v)]"
| "mapSet k v (kv # kvs) = (if fst kv = k then (k, v) # kvs else kv # mapSet k v kvs)"

text \<open>
  The four guarded assignments on \<open>existing\<close>. \<open>!existing.CountDate\<close> holds for \<open>null\<close> and
  for the empty string, and so does \<open>!CountDate\<close>.
\<close>

definition truthy :: "string option \<Rightarrow> bool" where
  "truthy v \<longleftrightarrow> v \<noteq> None \<and> v \<noteq> Some []"

definition fillFromHeader :: "yearHeader \<Rightarrow> pe_rec \<Rightarrow> pe_rec" where
  "fillFromHeader yh e =
     e\<lparr>pe_CountDate :=
          (if \<not> truthy (pe_CountDate e) \<and> truthy (yh_CountDate yh)
           then yh_CountDate yh else pe_CountDate e),
       pe_NumParticipants :=
          (if pe_NumParticipants e = None \<and> yh_NumParticipants yh \<noteq> None
           then yh_NumParticipants yh else pe_NumParticipants e),
       pe_NumSpeciesReported :=
          (if pe_NumSpeciesReported e = None \<and> yh_NumSpeciesReported yh \<noteq> None
           then yh_NumSpeciesReported yh else pe_NumSpeciesReported e),
       pe_NumHours :=
          (if pe_NumHours e = None \<and> yh_TotalHrs yh \<noteq> None
           then yh_TotalHrs yh else pe_NumHours e)\<rparr>"

text \<open>
  \<open>participantsEffort.find((r) => r.CountIndex === CountIndex)\<close> and the assignments on the
  record found: the first record with that index is updated in place.
\<close>

fun fillExisting :: "yearHeader \<Rightarrow> int \<Rightarrow> pe_rec list \<Rightarrow> pe_rec list" where
  "fillExisting yh idx [] = []"
| "fillExisting yh idx (e # es) =
     (if pe_CountIndex e = idx then fillFromHeader yh e # es
      else e # fillExisting yh idx es)"

definition addMeta :: "int \<Rightarrow> int \<Rightarrow> string option \<Rightarrow> species_state \<Rightarrow> species_state" where
  "addMeta idx y date st =
     (if idx \<in> ss_metaSeen st then st
      else st\<lparr>ss_metaSeen := insert idx (ss_metaSeen st),
              ss_meta := ss_meta st @
                [\<lparr>m_CountIndex = idx, m_Year = y,
                  m_CountDate = (if truthy date then date else None)\<rparr>]\<rparr>)"

definition addCount :: "string \<Rightarrow> int \<Rightarrow> int \<Rightarrow> species_state \<Rightarrow> species_state" where
  "addCount species y countVal st =
     (let m = (case map_of (ss_countsBySpecies st) species of None \<Rightarrow> [] | Some m \<Rightarrow> m)
      in st\<lparr>ss_countsBySpecies := mapSet species (mapSet y countVal m) (ss_countsBySpecies st)\<rparr>)"

text \<open>The body of the species loop for one data row; \<open>continue\<close> leaves the state as it is.\<close>

definition speciesRow :: "row \<Rightarrow> species_state \<Rightarrow> species_state" where
  "speciesRow d st =
     (let speciesRaw = trim (str (cell d 0));
          hdr = cell d 1
      in if speciesRaw = [] \<or> \<not> truthy hdr then st
         else (case parseYearHeaderCell (str hdr) of
                 None \<Rightarrow> st
               | Some yh \<Rightarrow>
                   (case (yh_CountIndex yh, yh_Year yh) of
                      (Some idx, Some y) \<Rightarrow>
                        (let st1 = addMeta idx y (yh_CountDate yh) st;
                             st2 = st1\<lparr>ss_participantsEffort :=
                                         fillExisting yh idx (ss_participantsEffort st1)\<rparr>;
                             species = trim (hd (splitStr LF speciesRaw));
                             countVal = (case parseMaybeInt (cell d 2) of None \<Rightarrow> 0 | Some n \<Rightarrow> n)
                         in addCount species y countVal st2)
                    | _ \<Rightarrow> st)))"

fun speciesRows :: "row list \<Rightarrow> species_state \<Rightarrow> species_state" where
  "speciesRows [] st = st"
| "speciesRows (d # ds) st = (if d = [] then st else speciesRows ds (speciesRow d st))"

definition isSpeciesSentinel :: "row \<Rightarrow> bool" where
  "isSpeciesSentinel r \<longleftrightarrow> cell r 0 = Some ''COM_NAME'' \<and> cell r 1 = Some ''CountYear''"

definition scanSpecies :: "row list \<Rightarrow> pe_rec list \<Rightarrow> species_state" where
  "scanSpecies rs pe =
     (let st0 = \<lparr>ss_meta = [], ss_metaSeen = {}, ss_participantsEffort = pe,
                 ss_countsBySpecies = []\<rparr>
      in case dropWhile (\<lambda>r. \<not> isSpeciesSentinel r) rs of
           [] \<Rightarrow> st0
         | r # ds \<Rightarrow> speciesRows ds st0)"

subsection \<open>Years and the species table\<close>

text \<open>
  \<open>uniqueSortedYearsFromMeta\<close>: the years go into a \<open>Set\<close> (insertion order, no
  duplicates), which is then sorted with the comparator \<open>(a, b) => a - b\<close>.
\<close>

definition setAdd :: "int list \<Rightarrow> int \<Rightarrow> int list" where
  "setAdd s y = (if y \<in> set s then s else s @ [y])"

definition uniqueSortedYearsFromMeta :: "meta_rec list \<Rightarrow> int list" where
  "uniqueSortedYearsFromMeta ms = sort (foldl setAdd [] (map m_Year ms))"

definition speciesRecOf :: "int list \<Rightarrow> string \<times> (int \<times> int) list \<Rightarrow> species_rec" where
  "speciesRecOf ys sp =
     \<lparr>Species = fst sp,
      byYear = List.map_filter
                 (\<lambda>y. case map_of (snd sp) y of None \<Rightarrow> None | Some c \<Rightarrow> Some (y, c)) ys\<rparr>"

subsection \<open>The whole call\<close>

text \<open>Everything after the lexer, on the row grid.\<close>

definition extractTables :: "row list \<Rightarrow> extraction_result" where
  "extractTables rs =
     (let ci = scanCircle rs (scanCompiler rs countInfo_init);
          weather = scanWeather rs;
          st = scanSpecies rs (scanEffort rs);
          ys = uniqueSortedYearsFromMeta (ss_meta st)
      in \<lparr>countInfo = ci,
          meta = ss_meta st,
          participantsEffort = ss_participantsEffort st,
          weatherRaw = weather,
          speciesTable = map (speciesRecOf ys) (ss_countsBySpecies st),
          years = ys\<rparr>)"

definition parseHistoricalResultsByCountCsv :: "string \<Rightarrow> csv_error + extraction_result" where
  "parseHistoricalResultsByCountCsv text =
     (case parseCsvText 250000 200 text of
        Inl e \<Rightarrow> Inl e
      | Inr rs \<Rightarrow> Inr (extractTables rs))"

section \<open>Year resolution in \<open>parseUploadedFile\<close> (main.js)\<close>

text \<open>\<open>cleanText\<close> on a string: carriage returns go, white space is collapsed and trimmed.\<close>

definition cleanText :: "string \<Rightarrow> string" where
  "cleanText v = trim (collapseSpaces (filter (\<lambda>c. c \<noteq> CR) v))"

text \<open>
  \<open>/\b(19\d{2}|20\d{2})\b/\<close> searched from the left. The flag says whether the character
  before the current position is a word character; the token starts and ends with a
  digit, so the two \<open>\b\<close> ask for no word character before it and none after it.
\<close>

fun yearTokenSearch :: "bool \<Rightarrow> string \<Rightarrow> string option" where
  "yearTokenSearch afterWord [] = None"
| "yearTokenSearch afterWord (c # cs) =
     (if \<not> afterWord \<and> isYearToken (take 4 (c # cs))
         \<and> (drop 4 (c # cs) = [] \<or> \<not> isWordChar (hd (drop 4 (c # cs))))
      then Some (take 4 (c # cs))
      else yearTokenSearch (isWordChar c) cs)"

definition yearFromCountDateString :: "string \<Rightarrow> int option" where
  "yearFromCountDateString countDate =
     (let s = cleanText countDate
      in if s = [] then None
         else (case yearTokenSearch False s of
                 None \<Rightarrow> None
               | Some y \<Rightarrow> finiteOrNull (parseInt y)))"

text \<open>
  \<open>new Map(meta.map((r) => [r.CountIndex, r.Year]))\<close>: entries are set from left to
  right, so a later entry for a key replaces an earlier one.
\<close>

definition metaYearByIdx :: "meta_rec list \<Rightarrow> int \<Rightarrow> int option" where
  "metaYearByIdx ms = foldl (\<lambda>m r. m(m_CountIndex r \<mapsto> m_Year r)) Map.empty ms"

definition resolveYear :: "meta_rec list \<Rightarrow> pe_rec \<Rightarrow> int option" where
  "resolveYear ms r =
     (let metaYear = metaYearByIdx ms (pe_CountIndex r);
          yearFromDate = (if truthy (pe_CountDate r)
                          then yearFromCountDateString (str (pe_CountDate r)) else None)
      in case metaYear of
           Some y \<Rightarrow> Some y
         | None \<Rightarrow> (case yearFromDate of Some y \<Rightarrow> Some y | None \<Rightarrow> pe_Year r))"

definition resolveYears :: "extraction_result \<Rightarrow> pe_rec list" where
  "resolveYears parsed =
     map (\<lambda>r. r\<lparr>pe_Year := resolveYear (meta parsed) r\<rparr>) (participantsEffort parsed)"

section \<open>Predicates used in the statements\<close>

text \<open>A field that \<open>pushRow\<close> treats as blank: empty once trimmed.\<close>

definition blankField :: "string \<Rightarrow> bool" where
  "blankField f \<longleftrightarrow> trim f = []"

text \<open>A grid with no empty row and no row that ends in a blank field.\<close>

definition rows_ok :: "row list \<Rightarrow> bool" where
  "rows_ok rs \<longleftrightarrow> (\<forall>r \<in> set rs. r \<noteq> [] \<and> \<not> blankField (last r))"

text \<open>The data rows of the species section: those after the sentinel, up to the first empty row.\<close>

definition speciesSection :: "row list \<Rightarrow> row list" where
  "speciesSection rs =
     (case dropWhile (\<lambda>r. \<not> isSpeciesSentinel r) rs of
        [] \<Rightarrow> []
      | r # ds \<Rightarrow> takeWhile (\<lambda>d. d \<noteq> []) ds)"

text \<open>A metadata record that restates the year and the index of the header cell of a row.\<close>

definition fromHeaderOf :: "meta_rec \<Rightarrow> row \<Rightarrow> bool" where
  "fromHeaderOf m d \<longleftrightarrow>
     (case parseYearHeaderCell (str (cell d 1)) of
        None \<Rightarrow> False
      | Some yh \<Rightarrow> yh_Year yh = Some (m_Year m) \<and> yh_CountIndex yh = Some (m_CountIndex m))"

text \<open>
  The header of a data row that the species loop accepts, with its index and its year:
  the row has a species cell that is not blank and a second cell that parses as a
  composite header with an index and a year.
\<close>

definition rowHeader :: "row \<Rightarrow> (yearHeader \<times> int \<times> int) option" where
  "rowHeader d =
     (if trim (str (cell d 0)) = [] \<or> \<not> truthy (cell d 1) then None
      else (case parseYearHeaderCell (str (cell d 1)) of
              None \<Rightarrow> None
            | Some yh \<Rightarrow>
                (case (yh_CountIndex yh, yh_Year yh) of
                   (Some idx, Some y) \<Rightarrow> Some (yh, idx, y)
                 | _ \<Rightarrow> None)))"

text \<open>The metadata record that restates such a header.\<close>

definition headerMeta :: "row \<Rightarrow> meta_rec option" where
  "headerMeta d =
     map_option
       (\<lambda>(yh, idx, y).
          \<lparr>m_CountIndex = idx, m_Year = y,
           m_CountDate = (if truthy (yh_CountDate yh) then yh_CountDate yh else None)\<rparr>)
       (rowHeader d)"

text \<open>Of the records with one index, only the first is kept; \<open>seen\<close> holds the indices met.\<close>

fun firstPerIndex :: "int set \<Rightarrow> meta_rec list \<Rightarrow> meta_rec list" where
  "firstPerIndex seen [] = []"
| "firstPerIndex seen (m # ms) =
     (if m_CountIndex m \<in> seen then firstPerIndex seen ms
      else m # firstPerIndex (insert (m_CountIndex m) seen) ms)"

text \<open>
  The update of the participation/effort list that one data row asks for: the record found
  by the index of the row's header is filled from that header; a row with no accepted
  header changes nothing.
\<close>

definition fillStep :: "pe_rec list \<Rightarrow> row \<Rightarrow> pe_rec list" where
  "fillStep pe d =
     (case rowHeader d of None \<Rightarrow> pe | Some (yh, idx, y) \<Rightarrow> fillExisting yh idx pe)"

text \<open>
  The record \<open>e'\<close> keeps the index and the year of \<open>e\<close> and every field that \<open>e\<close> holds.
\<close>

definition keeps :: "pe_rec \<Rightarrow> pe_rec \<Rightarrow> bool" where
  "keeps e e' \<longleftrightarrow>
     pe_CountIndex e' = pe_CountIndex e \<and> pe_Year e' = pe_Year e
     \<and> (truthy (pe_CountDate e) \<longrightarrow> pe_CountDate e' = pe_CountDate e)
     \<and> (pe_NumParticipants e \<noteq> None \<longrightarrow> pe_NumParticipants e' = pe_NumParticipants e)
     \<and> (pe_NumSpeciesReported e \<noteq> None \<longrightarrow> pe_NumSpeciesReported e' = pe_NumSpeciesReported e)
     \<and> (pe_NumHours e \<noteq> None \<longrightarrow> pe_NumHours e' = pe_NumHours e)"

text \<open>
  The invariant of the species loop on its metadata: one record per index seen, and no
  index twice.
\<close>

definition meta_inv :: "species_state \<Rightarrow> bool" where
  "meta_inv st \<longleftrightarrow>
     distinct (map m_CountIndex (ss_meta st)) \<and> m_CountIndex ` set (ss_meta st) = ss_metaSeen st"


text \<open>
  A year token at position \<open>i\<close> of a text: four characters \<open>19dd\<close> or \<open>20dd\<close> with no word
  character right before them and none right after them. The flag says whether a word
  character stands before the text.
\<close>

definition yearTokenAt :: "bool \<Rightarrow> string \<Rightarrow> nat \<Rightarrow> bool" where
  "yearTokenAt afterWord s i \<longleftrightarrow>
     i + 4 \<le> length s \<and> isYearToken (take 4 (drop i s))
     \<and> (if i = 0 then \<not> afterWord else \<not> isWordChar (s ! (i - 1)))
     \<and> (i + 4 = length s \<or> \<not> isWordChar (s ! (i + 4)))"

text \<open>The first line of a cell: the text before its first line break.\<close>

definition firstLine :: "string \<Rightarrow> string" where
  "firstLine c = takeWhile (\<lambda>x. x \<noteq> LF \<and> x \<noteq> CR) c"

text \<open>
  A line that, after optional white space, starts with a four-digit year from 1900 to
  2099, then optional white space, then an index of one or more digits in square brackets.
\<close>

definition yearIndexPrefix :: "string \<Rightarrow> bool" where
  "yearIndexPrefix line \<longleftrightarrow>
     (\<exists>ws1 y ws2 ds rest.
        line = ws1 @ y @ ws2 @ ''['' @ ds @ '']'' @ rest
        \<and> list_all isSpace ws1 \<and> length y = 4 \<and> list_all isDigit y
        \<and> 1900 \<le> digitsVal y \<and> digitsVal y \<le> 2099
        \<and> list_all isSpace ws2 \<and> ds \<noteq> [] \<and> list_all isDigit ds)"

text \<open>A data row of the weather and effort sections: not empty, with a numeric-looking first cell.\<close>

definition dataRow :: "row \<Rightarrow> bool" where
  "dataRow d \<longleftrightarrow> d \<noteq> [] \<and> isNumericLike (cell d 0)"

text \<open>The index of a data row, when the row emits a record: not \<open>null\<close> and not zero.\<close>

definition rowIndex :: "row \<Rightarrow> int option" where
  "rowIndex d = (case parseMaybeInt (cell d 0) of None \<Rightarrow> None | Some i \<Rightarrow> if i = 0 then None else Some i)"

text \<open>
  The rows of a text as the quoting rules alone give them, with every field kept and no
  cap: outside quotes a comma ends a field and a line feed ends a row; the last row ends
  with the text. The arguments are the quote state, the fields of the open row and the
  open field.
\<close>

fun rawRowsFrom :: "bool \<Rightarrow> row \<Rightarrow> string \<Rightarrow> string \<Rightarrow> row list" where
  "rawRowsFrom q r f [] = [r @ [f]]"
| "rawRowsFrom q r f (ch # cs) =
     (if q then
        (if ch = dquote then
           (if cs \<noteq> [] \<and> hd cs = dquote then rawRowsFrom True r (f @ [dquote]) (tl cs)
            else rawRowsFrom False r f cs)
         else rawRowsFrom True r (f @ [ch]) cs)
      else if ch = dquote then rawRowsFrom True r f cs
      else if ch = comma then rawRowsFrom False (r @ [f]) [] cs
      else if ch = LF then (r @ [f]) # rawRowsFrom False [] [] cs
      else rawRowsFrom False r (f @ [ch]) cs)"

definition rawRows :: "string \<Rightarrow> row list" where
  "rawRows t = rawRowsFrom False [] [] (normalizeNewlines t)"

text \<open>
  Whether the end of a text lies inside a quoted field, given whether its start does: a
  quote opens a quoted field, a doubled quote inside one is a literal, a single quote
  closes it.
\<close>

fun quoteAfter :: "bool \<Rightarrow> string \<Rightarrow> bool" where
  "quoteAfter q [] = q"
| "quoteAfter q (ch # cs) =
     (if q then
        (if ch = dquote then
           (if cs \<noteq> [] \<and> hd cs = dquote then quoteAfter True (tl cs)
            else quoteAfter False cs)
         else quoteAfter True cs)
      else if ch = dquote then quoteAfter True cs
      else quoteAfter False cs)"

section \<open>Properties of the lexer\<close>

lemmas lex_defs = parseCsvText_def normalizeNewlines_def replaceCR_def lexer_init_def
  pushField_def pushRow_def trim_def isSpace_def dquote_def comma_def LF_def CR_def

text \<open>The loop of \<open>pushRow\<close> removes the longest run of blank fields at the end of the row.\<close>

lemma popBlank_eq: "popBlank r = rev (dropWhile (\<lambda>f. trim f = []) (rev r))"
proof (induction r rule: popBlank.induct)
  case (1 r)
  show ?case
  proof (cases "r \<noteq> [] \<and> trim (last r) = []")
    case True
    then obtain xs x where r: "r = xs @ [x]"
      by (metis append_butlast_last_id)
    with True have "trim x = []"
      by simp
    with 1 True r show ?thesis
      by (subst popBlank.simps) simp
  next
    case False
    then show ?thesis
      by (subst popBlank.simps) (cases r rule: rev_cases; auto)
  qed
qed

lemmas lex_eval = lex_defs popBlank_eq

lemma normalizeNewlines_id: "CR \<notin> set s \<Longrightarrow> normalizeNewlines s = s"
proof -
  assume "CR \<notin> set s"
  then have "replaceCRLF s = s"
    by (induction s rule: replaceCRLF.induct) auto
  moreover from \<open>CR \<notin> set s\<close> have "replaceCR s = s"
    by (induction s) (auto simp: replaceCR_def)
  ultimately show ?thesis
    by (simp add: normalizeNewlines_def)
qed

lemma normalizeNewlines_no_CR: "CR \<notin> set (normalizeNewlines t)"
  by (auto simp: normalizeNewlines_def replaceCR_def CR_def LF_def)


text \<open>
  Claim C5, as the code has it. A quoted field keeps its comma: the text \<open>"a,b"\<close> is one
  row with the one field \<open>a,b\<close>. A doubled quote inside a quoted field is one literal
  quote: the text \<open>"a""b"\<close> is the field of the three characters \<open>a\<close>, \<open>"\<close>, \<open>b\<close>; the
  closing quote of the field is not part of it. Both hold whatever the caps are.
\<close>

theorem quoted_field_lexing:
  \<open>parseCsvText maxRows maxCols ''"a,b"'' = Inr [[''a,b'']]
   \<and> parseCsvText maxRows maxCols ''"a""b"'' = Inr [[''a"b'']]\<close>
  by (simp add: lex_eval)

text \<open>
  Claim C5 as the specification words it gives the field \<open>a"b"\<close>, with a quote at its end,
  for the text \<open>"a""b"\<close>. The lexer does not return that field.
\<close>

theorem quoted_field_trailing_quote_counterexample:
  \<open>parseCsvText 250000 200 ''"a""b"'' \<noteq> Inr [[''a"b"'']]\<close>
  by (simp add: lex_eval)

subsection \<open>Trailing blank fields and blank rows\<close>

lemma popBlank_last: "popBlank r \<noteq> [] \<Longrightarrow> trim (last (popBlank r)) \<noteq> []"
  unfolding popBlank_eq
  by (metis (mono_tags, lifting) dropWhile_eq_Nil_conv hd_dropWhile last_rev rev_is_Nil_conv)

lemma popBlank_Nil: "popBlank r = [] \<longleftrightarrow> list_all blankField r"
  by (auto simp: popBlank_eq blankField_def list_all_iff dropWhile_eq_Nil_conv)

lemma rows_ok_pushRow: "rows_ok (rows st) \<Longrightarrow> rows_ok (rows (pushRow st))"
  by (auto simp: rows_ok_def pushRow_def Let_def popBlank_last blankField_def)

lemma rows_ok_lexLoop:
  "lexLoop maxRows maxCols st s = Inr st' \<Longrightarrow> rows_ok (rows st) \<Longrightarrow> rows_ok (rows st')"
proof (induction maxRows maxCols st s rule: lexLoop.induct)
  case (1 maxRows maxCols st)
  then show ?case by simp
next
  case (2 maxRows maxCols st ch cs)
  then show ?case
    by (auto simp: Let_def pushField_def rows_ok_pushRow split: if_splits)
qed

lemma rows_ok_parseCsvText: "parseCsvText maxRows maxCols t = Inr rs \<Longrightarrow> rows_ok rs"
proof -
  assume "parseCsvText maxRows maxCols t = Inr rs"
  then obtain st where st: "lexLoop maxRows maxCols lexer_init (normalizeNewlines t) = Inr st"
    and rs: "rs = rows (pushRow (pushField st))"
    by (auto simp: parseCsvText_def split: sum.splits)
  have "rows_ok (rows lexer_init)"
    by (simp add: lexer_init_def rows_ok_def)
  with st have "rows_ok (rows st)"
    by (rule rows_ok_lexLoop)
  then have "rows_ok (rows (pushField st))"
    by (simp add: pushField_def)
  then show ?thesis
    unfolding rs by (rule rows_ok_pushRow)
qed

text \<open>
  The rows of the result are the raw rows, each without its blank end, the empty ones
  left out.
\<close>

lemma rows_pushRow:
  "rows (pushRow st) = rows st @ filter (\<lambda>r. r \<noteq> []) [popBlank (row st)]"
  by (simp add: pushRow_def Let_def)

lemma lexLoop_rawRows:
  "lexLoop maxRows maxCols st s = Inr st' \<Longrightarrow>
     rows (pushRow (pushField st')) =
       rows st @ filter (\<lambda>r. r \<noteq> [])
                  (map popBlank (rawRowsFrom (inQuotes st) (row st) (field st) s))"
proof (induction maxRows maxCols st s rule: lexLoop.induct)
  case (1 maxRows maxCols st)
  then show ?case
    by (simp add: rows_pushRow pushField_def)
next
  case (2 maxRows maxCols st ch cs)
  show ?case
  proof (cases "inQuotes st")
    case True
    with 2 show ?thesis
      by (auto split: if_splits)
  next
    case q: False
    show ?thesis
    proof (cases "ch = dquote")
      case True
      with q 2 show ?thesis by auto
    next
      case nd: False
      show ?thesis
      proof (cases "ch = comma")
        case True
        with q nd 2 show ?thesis
          by (auto simp: Let_def pushField_def split: if_splits)
      next
        case nc: False
        show ?thesis
        proof (cases "ch = LF")
          case True
          with q nd nc "2.prems" have ok: "\<not> length (rows (pushRow (pushField st))) > maxRows"
            and run: "lexLoop maxRows maxCols (pushRow (pushField st)) cs = Inr st'"
            by (auto simp: Let_def split: if_splits)
          have "rows (pushRow (pushField st')) =
              rows (pushRow (pushField st)) @ filter (\<lambda>r. r \<noteq> [])
                (map popBlank (rawRowsFrom (inQuotes (pushRow (pushField st)))
                   (row (pushRow (pushField st))) (field (pushRow (pushField st))) cs))"
            using q nd nc True ok run by (intro "2.IH"(6)) (auto simp: Let_def)
          then show ?thesis
            using q nd nc True by (simp add: rows_pushRow pushRow_def pushField_def Let_def)
        next
          case False
          with q nd nc 2 show ?thesis by auto
        qed
      qed
    qed
  qed
qed

lemma parseCsvText_rawRows:
  "parseCsvText maxRows maxCols t = Inr rs \<Longrightarrow>
     rs = filter (\<lambda>r. r \<noteq> []) (map (\<lambda>r. rev (dropWhile blankField (rev r))) (rawRows t))"
proof -
  assume "parseCsvText maxRows maxCols t = Inr rs"
  then obtain st where st: "lexLoop maxRows maxCols lexer_init (normalizeNewlines t) = Inr st"
    and rs: "rs = rows (pushRow (pushField st))"
    by (auto simp: parseCsvText_def split: sum.splits)
  have "(\<lambda>f. trim f = []) = blankField"
    by (simp add: fun_eq_iff blankField_def)
  then have "popBlank = (\<lambda>r. rev (dropWhile blankField (rev r)))"
    by (simp add: fun_eq_iff popBlank_eq)
  with lexLoop_rawRows [OF st] show ?thesis
    by (simp add: rs rawRows_def lexer_init_def)
qed

text \<open>
  Claim C6. The lines \<open>a,b,,\<close> and \<open>a,b\<close> lex to the same row \<open>["a","b"]\<close>. For every
  input and every pair of caps, when the lexer returns, its rows are the raw rows of the
  text, each without the fields that are empty or white space only at its end, and
  without the rows that this leaves empty: no row of the result is empty and no row ends
  in such a field.
\<close>

theorem trailing_blank_fields_removed:
  "parseCsvText 250000 200 ''a,b,,'' = Inr [[''a'', ''b'']]
   \<and> parseCsvText 250000 200 ''a,b'' = Inr [[''a'', ''b'']]
   \<and> (parseCsvText maxRows maxCols t = Inr rs \<longrightarrow>
        rs = filter (\<lambda>r. r \<noteq> []) (map (\<lambda>r. rev (dropWhile blankField (rev r))) (rawRows t))
        \<and> (\<forall>r \<in> set rs. r \<noteq> [] \<and> \<not> blankField (last r)))"
proof (intro conjI impI)
  show "parseCsvText 250000 200 ''a,b,,'' = Inr [[''a'', ''b'']]"
    by (simp add: lex_eval)
  show "parseCsvText 250000 200 ''a,b'' = Inr [[''a'', ''b'']]"
    by (simp add: lex_eval)
next
  assume a: "parseCsvText maxRows maxCols t = Inr rs"
  then show "rs = filter (\<lambda>r. r \<noteq> []) (map (\<lambda>r. rev (dropWhile blankField (rev r))) (rawRows t))"
    by (rule parseCsvText_rawRows)
  from a show "\<forall>r \<in> set rs. r \<noteq> [] \<and> \<not> blankField (last r)"
    using rows_ok_parseCsvText [of maxRows maxCols t rs] by (simp add: rows_ok_def)
qed

theorem trailing_blank_fields_removed_witness:
  "parseCsvText 250000 200 ''x, ,\<newline> ,,\<newline>y'' = Inr [[''x''], [''y'']]
   \<and> rawRows ''x, ,\<newline> ,,\<newline>y'' = [[''x'', '' '', []], ['' '', [], []], [''y'']]
   \<and> [[''x''], [''y'']] =
       filter (\<lambda>r. r \<noteq> [])
         (map (\<lambda>r. rev (dropWhile blankField (rev r)))
            [[''x'', '' '', []], ['' '', [], []], [''y'']])
   \<and> [''x''] \<noteq> [] \<and> \<not> blankField (last [''x''])
   \<and> [''y''] \<noteq> [] \<and> \<not> blankField (last [''y''])"
proof -
  have h: "parseCsvText 250000 200 ''x, ,\<newline> ,,\<newline>y'' = Inr [[''x''], [''y'']]"
    by (simp add: lex_eval)
  have r: "rawRows ''x, ,\<newline> ,,\<newline>y'' = [[''x'', '' '', []], ['' '', [], []], [''y'']]"
    by (simp add: rawRows_def normalizeNewlines_def replaceCR_def dquote_def comma_def LF_def
        CR_def)
  show ?thesis
    using h r trailing_blank_fields_removed [of 250000 200 "''x, ,\<newline> ,,\<newline>y''"
        "[[''x''], [''y'']]"]
    by (simp add: blankField_def trim_def isSpace_def)
qed

subsection \<open>The count identifier\<close>

lemma CountId_headerRow: "CountId (headerRow r v ci) = CountId ci"
  by (simp add: headerRow_def Let_def)

lemma CountId_inlineCell: "CountId (inlineCell r ci j) = CountId ci"
  by (simp add: inlineCell_def Let_def split: option.splits)

lemma CountId_inlineCells: "CountId (foldl (inlineCell r) ci js) = CountId ci"
  by (induction js arbitrary: ci) (simp_all add: CountId_inlineCell)

lemma CountId_compilerRow: "CountId (compilerRow ci rv) = CountId ci"
  by (cases rv) (simp add: compilerRow_def CountId_inlineCells CountId_headerRow)

lemma CountId_compilerRows: "CountId (foldl compilerRow ci rvs) = CountId ci"
  by (induction rvs arbitrary: ci) (simp_all add: CountId_compilerRow)

lemma CountId_scanCircle: "CountId (scanCircle rs ci) = CountId ci"
  by (simp add: scanCircle_def Let_def split: option.splits prod.splits)

lemma CountId_extractTables: "CountId (countInfo (extractTables rs)) = None"
  by (simp add: extractTables_def Let_def CountId_scanCircle scanCompiler_def
      CountId_compilerRows countInfo_init_def)

text \<open>
  Claim C10. For every input on which the call returns, the \<open>CountId\<close> of the returned
  \<open>countInfo\<close> is \<open>null\<close>: it is initialized to \<open>null\<close> and neither the compiler scan nor
  the circle scan assigns it.
\<close>

theorem CountId_always_null:
  "parseHistoricalResultsByCountCsv t = Inr res \<Longrightarrow> CountId (countInfo res) = None"
  by (auto simp: parseHistoricalResultsByCountCsv_def CountId_extractTables split: sum.splits)

theorem CountId_always_null_witness:
  "parseHistoricalResultsByCountCsv ''CircleName,Abbrev,LatLong\<newline>Davis,CADV,38.5/-121.7''
     = Inr (extractTables [[''CircleName'', ''Abbrev'', ''LatLong''], [''Davis'', ''CADV'', ''38.5/-121.7'']])
   \<and> CountName (countInfo (extractTables [[''CircleName'', ''Abbrev'', ''LatLong''], [''Davis'', ''CADV'', ''38.5/-121.7'']])) = Some ''Davis''
   \<and> CountId (countInfo (extractTables [[''CircleName'', ''Abbrev'', ''LatLong''], [''Davis'', ''CADV'', ''38.5/-121.7'']])) = None"
proof -
  have h: "parseHistoricalResultsByCountCsv ''CircleName,Abbrev,LatLong\<newline>Davis,CADV,38.5/-121.7''
     = Inr (extractTables [[''CircleName'', ''Abbrev'', ''LatLong''], [''Davis'', ''CADV'', ''38.5/-121.7'']])"
    by (simp add: parseHistoricalResultsByCountCsv_def lex_eval)
  have n: "CountName (countInfo (extractTables [[''CircleName'', ''Abbrev'', ''LatLong''], [''Davis'', ''CADV'', ''38.5/-121.7'']])) = Some ''Davis''"
    by code_simp
  show ?thesis
    using h n CountId_always_null [OF h] by simp
qed

subsection \<open>Count indices of the section records\<close>

lemma weatherRows_nonzero: "w \<in> set (weatherRows ds) \<Longrightarrow> w_CountIndex w \<noteq> 0"
  by (induction ds) (auto simp: weatherOf_def split: if_splits option.splits)

lemma effortRows_nonzero: "e \<in> set (effortRows ds) \<Longrightarrow> pe_CountIndex e \<noteq> 0"
  by (induction ds) (auto simp: effortOf_def split: if_splits option.splits)

lemma scanWeather_nonzero: "w \<in> set (scanWeather rs) \<Longrightarrow> w_CountIndex w \<noteq> 0"
  by (auto simp: scanWeather_def split: list.splits dest: weatherRows_nonzero)

lemma scanEffort_nonzero: "e \<in> set (scanEffort rs) \<Longrightarrow> pe_CountIndex e \<noteq> 0"
  by (auto simp: scanEffort_def split: list.splits dest: effortRows_nonzero)

lemma CountIndex_fillFromHeader: "pe_CountIndex (fillFromHeader yh e) = pe_CountIndex e"
  by (simp add: fillFromHeader_def)

lemma CountIndex_fillExisting: "map pe_CountIndex (fillExisting yh idx es) = map pe_CountIndex es"
  by (induction es) (simp_all add: CountIndex_fillFromHeader)

lemma pe_addMeta: "ss_participantsEffort (addMeta idx y date st) = ss_participantsEffort st"
  by (simp add: addMeta_def)

lemma pe_addCount: "ss_participantsEffort (addCount sp y c st) = ss_participantsEffort st"
  by (simp add: addCount_def Let_def)

lemma CountIndex_speciesRow:
  "map pe_CountIndex (ss_participantsEffort (speciesRow d st))
     = map pe_CountIndex (ss_participantsEffort st)"
  by (simp add: speciesRow_def Let_def pe_addMeta pe_addCount CountIndex_fillExisting
      split: option.splits)

lemma CountIndex_speciesRows:
  "map pe_CountIndex (ss_participantsEffort (speciesRows ds st))
     = map pe_CountIndex (ss_participantsEffort st)"
  by (induction ds arbitrary: st) (simp_all add: CountIndex_speciesRow)

lemma CountIndex_scanSpecies:
  "map pe_CountIndex (ss_participantsEffort (scanSpecies rs pe)) = map pe_CountIndex pe"
  by (simp add: scanSpecies_def Let_def CountIndex_speciesRows split: list.splits)

lemma extractTables_nonzero:
  "(\<forall>w \<in> set (weatherRaw (extractTables rs)). w_CountIndex w \<noteq> 0)
   \<and> (\<forall>e \<in> set (participantsEffort (extractTables rs)). pe_CountIndex e \<noteq> 0)"
proof -
  have "pe_CountIndex ` set (ss_participantsEffort (scanSpecies rs (scanEffort rs)))
      = pe_CountIndex ` set (scanEffort rs)"
    using CountIndex_scanSpecies [of rs "scanEffort rs"] by (metis set_map)
  then have "\<forall>e \<in> set (ss_participantsEffort (scanSpecies rs (scanEffort rs))). pe_CountIndex e \<noteq> 0"
    using scanEffort_nonzero [of _ rs] by (metis imageE imageI)
  then show ?thesis
    by (simp add: extractTables_def Let_def scanWeather_nonzero)
qed

text \<open>
  Claim C8. Every record of \<open>weatherRaw\<close> and of \<open>participantsEffort\<close> in the result has a
  \<open>CountIndex\<close> that is an integer other than zero (and, being an \<open>int\<close>, not \<open>null\<close>): a
  data row whose first cell coerces to \<open>null\<close> or to zero emits no record, and the species
  scan, which updates participation/effort records in place, leaves their index alone.
\<close>

theorem section_records_have_nonzero_index:
  "parseHistoricalResultsByCountCsv t = Inr res \<Longrightarrow>
     (\<forall>w \<in> set (weatherRaw res). w_CountIndex w \<noteq> 0)
     \<and> (\<forall>e \<in> set (participantsEffort res). pe_CountIndex e \<noteq> 0)"
  using extractTables_nonzero
  by (auto simp: parseHistoricalResultsByCountCsv_def split: sum.splits)

theorem section_records_have_nonzero_index_witness:
  "parseHistoricalResultsByCountCsv
       ''CountYear3,LowTemp\<newline>0,20\<newline>3,28.4F,41\<newline>CountYear5\<newline>0.5,x\<newline>-2,12/27/1987''
     = Inr (extractTables [[''CountYear3'', ''LowTemp''], [''0'', ''20''], [''3'', ''28.4F'', ''41''],
              [''CountYear5''], [''0.5'', ''x''], [''-2'', ''12/27/1987'']])
   \<and> map w_CountIndex (weatherRaw (extractTables [[''CountYear3'', ''LowTemp''], [''0'', ''20''],
         [''3'', ''28.4F'', ''41''], [''CountYear5''], [''0.5'', ''x''], [''-2'', ''12/27/1987'']])) = [3]
   \<and> map pe_CountIndex (participantsEffort (extractTables [[''CountYear3'', ''LowTemp''],
         [''0'', ''20''], [''3'', ''28.4F'', ''41''], [''CountYear5''], [''0.5'', ''x''],
         [''-2'', ''12/27/1987'']])) = [- 2]
   \<and> (3::int) \<noteq> 0 \<and> (- 2::int) \<noteq> 0"
proof -
  let ?g = "[[''CountYear3'', ''LowTemp''], [''0'', ''20''], [''3'', ''28.4F'', ''41''],
              [''CountYear5''], [''0.5'', ''x''], [''-2'', ''12/27/1987'']]"
  have h: "parseHistoricalResultsByCountCsv
       ''CountYear3,LowTemp\<newline>0,20\<newline>3,28.4F,41\<newline>CountYear5\<newline>0.5,x\<newline>-2,12/27/1987''
     = Inr (extractTables ?g)"
    by (simp add: parseHistoricalResultsByCountCsv_def lex_eval)
  have w: "map w_CountIndex (weatherRaw (extractTables ?g)) = [3]"
    by code_simp
  have e: "map pe_CountIndex (participantsEffort (extractTables ?g)) = [- 2]"
    by code_simp
  show ?thesis
    using h w e section_records_have_nonzero_index [OF h] by simp
qed

subsection \<open>The list of years\<close>

lemma set_foldl_setAdd: "set (foldl setAdd acc ys) = set acc \<union> set ys"
  by (induction ys arbitrary: acc) (auto simp: setAdd_def)

lemma distinct_foldl_setAdd: "distinct acc \<Longrightarrow> distinct (foldl setAdd acc ys)"
  by (induction ys arbitrary: acc) (auto simp: setAdd_def)

lemma uniqueSortedYears_strict: "sorted_wrt (<) (uniqueSortedYearsFromMeta ms)"
  by (simp add: uniqueSortedYearsFromMeta_def strict_sorted_iff distinct_foldl_setAdd)

lemma uniqueSortedYears_set: "set (uniqueSortedYearsFromMeta ms) = m_Year ` set ms"
  by (simp add: uniqueSortedYearsFromMeta_def set_foldl_setAdd)

lemma meta_addCount: "ss_meta (addCount sp y c st) = ss_meta st"
  by (simp add: addCount_def Let_def)

lemma speciesRow_cases:
  obtains (skip) "speciesRow d st = st"
  | (header) yh idx y sp c where "parseYearHeaderCell (str (cell d 1)) = Some yh"
      and "yh_CountIndex yh = Some idx" and "yh_Year yh = Some y"
      and "speciesRow d st =
            addCount sp y c
              ((addMeta idx y (yh_CountDate yh) st)
                 \<lparr>ss_participantsEffort :=
                    fillExisting yh idx (ss_participantsEffort (addMeta idx y (yh_CountDate yh) st))\<rparr>)"
proof (cases "trim (str (cell d 0)) = [] \<or> \<not> truthy (cell d 1)")
  case True
  then have "speciesRow d st = st"
    by (simp add: speciesRow_def Let_def)
  then show ?thesis by (rule skip)
next
  case False
  note ok = this
  show ?thesis
  proof (cases "parseYearHeaderCell (str (cell d 1))")
    case None
    with ok have "speciesRow d st = st"
      by (simp add: speciesRow_def Let_def)
    then show ?thesis by (rule skip)
  next
    case (Some yh)
    show ?thesis
    proof (cases "yh_CountIndex yh")
      case None
      with ok Some have "speciesRow d st = st"
        by (simp add: speciesRow_def Let_def)
      then show ?thesis by (rule skip)
    next
      case idx: (Some idx)
      show ?thesis
      proof (cases "yh_Year yh")
        case None
        with ok Some idx have "speciesRow d st = st"
          by (simp add: speciesRow_def Let_def)
        then show ?thesis by (rule skip)
      next
        case y: (Some y)
        show ?thesis
          by (rule header [OF Some idx y]) (use ok Some idx y in \<open>simp add: speciesRow_def Let_def\<close>)
      qed
    qed
  qed
qed

lemma meta_speciesRow:
  "m \<in> set (ss_meta (speciesRow d st)) \<Longrightarrow> m \<in> set (ss_meta st) \<or> fromHeaderOf m d"
proof (cases d st rule: speciesRow_cases)
  case skip
  assume "m \<in> set (ss_meta (speciesRow d st))"
  with skip show ?thesis by simp
next
  case (header yh idx y sp c)
  assume "m \<in> set (ss_meta (speciesRow d st))"
  with header show ?thesis
    by (auto simp: meta_addCount addMeta_def fromHeaderOf_def split: if_splits)
qed

lemma meta_speciesRows:
  "m \<in> set (ss_meta (speciesRows ds st)) \<Longrightarrow>
     m \<in> set (ss_meta st) \<or> (\<exists>d \<in> set (takeWhile (\<lambda>d. d \<noteq> []) ds). fromHeaderOf m d)"
proof (induction ds arbitrary: st)
  case Nil
  then show ?case by simp
next
  case (Cons d ds)
  show ?case
  proof (cases "d = []")
    case True
    with Cons.prems show ?thesis by simp
  next
    case False
    with Cons.prems have "m \<in> set (ss_meta (speciesRows ds (speciesRow d st)))"
      by simp
    from Cons.IH [OF this] show ?thesis
      using False meta_speciesRow [of m d st] by auto
  qed
qed

lemma meta_scanSpecies:
  "m \<in> set (ss_meta (scanSpecies rs pe)) \<Longrightarrow> \<exists>d \<in> set (speciesSection rs). fromHeaderOf m d"
  by (auto simp: scanSpecies_def speciesSection_def Let_def split: list.splits
      dest!: meta_speciesRows)

text \<open>The metadata list does not depend on the participation/effort records.\<close>

lemma meta_speciesRow_indep:
  assumes "ss_meta st = ss_meta st'" and "ss_metaSeen st = ss_metaSeen st'"
  shows "ss_meta (speciesRow d st) = ss_meta (speciesRow d st')
     \<and> ss_metaSeen (speciesRow d st) = ss_metaSeen (speciesRow d st')"
proof (cases "parseYearHeaderCell (str (cell d 1))")
  case None
  with assms show ?thesis
    by (simp add: speciesRow_def Let_def)
next
  case (Some yh)
  with assms show ?thesis
    by (cases "yh_CountIndex yh"; cases "yh_Year yh")
      (simp_all add: speciesRow_def Let_def addCount_def addMeta_def)
qed

lemma meta_speciesRows_indep:
  "ss_meta st = ss_meta st' \<Longrightarrow> ss_metaSeen st = ss_metaSeen st' \<Longrightarrow>
     ss_meta (speciesRows ds st) = ss_meta (speciesRows ds st')"
proof (induction ds arbitrary: st st')
  case Nil
  then show ?case by simp
next
  case (Cons d ds)
  show ?case
  proof (cases "d = []")
    case True
    with Cons.prems show ?thesis by simp
  next
    case False
    from Cons.prems have "ss_meta (speciesRow d st) = ss_meta (speciesRow d st')"
      and "ss_metaSeen (speciesRow d st) = ss_metaSeen (speciesRow d st')"
      using meta_speciesRow_indep [of st st' d] by simp_all
    then have "ss_meta (speciesRows ds (speciesRow d st)) = ss_meta (speciesRows ds (speciesRow d st'))"
      by (rule Cons.IH)
    with False show ?thesis by simp
  qed
qed

lemma meta_scanSpecies_indep: "ss_meta (scanSpecies rs pe) = ss_meta (scanSpecies rs [])"
proof (cases "dropWhile (\<lambda>r. \<not> isSpeciesSentinel r) rs")
  case Nil
  show ?thesis
    unfolding scanSpecies_def Let_def Nil by simp
next
  case (Cons r ds)
  show ?thesis
    unfolding scanSpecies_def Let_def Cons by (simp add: meta_speciesRows_indep)
qed

lemma parse_extractTables:
  "parseCsvText 250000 200 t = Inr rs \<Longrightarrow> parseHistoricalResultsByCountCsv t = Inr (extractTables rs)"
  by (simp add: parseHistoricalResultsByCountCsv_def)

lemma meta_extractTables: "meta (extractTables rs) = ss_meta (scanSpecies rs (scanEffort rs))"
  by (simp add: extractTables_def Let_def)

lemma years_extractTables: "years (extractTables rs) = uniqueSortedYearsFromMeta (meta (extractTables rs))"
  by (simp add: extractTables_def Let_def)

lemma no_empty_row: "parseCsvText maxRows maxCols t = Inr rs \<Longrightarrow> [] \<notin> set rs"
  using rows_ok_parseCsvText [of maxRows maxCols t rs] by (auto simp: rows_ok_def)

lemma dropWhile_first:
  "\<forall>p \<in> set pre. \<not> P p \<Longrightarrow> P r \<Longrightarrow> dropWhile (\<lambda>x. \<not> P x) (pre @ r # ds) = r # ds"
  by (induction pre) auto

lemma speciesRow_None: "rowHeader d = None \<Longrightarrow> speciesRow d st = st"
  by (cases d st rule: speciesRow_cases)
    (auto simp: rowHeader_def speciesRow_def Let_def split: if_splits option.splits)


lemma rowHeader_Some:
  assumes "rowHeader d = Some (yh, idx, y)"
  shows "trim (str (cell d 0)) \<noteq> []" and "truthy (cell d 1)"
    and "parseYearHeaderCell (str (cell d 1)) = Some yh"
    and "yh_CountIndex yh = Some idx" and "yh_Year yh = Some y"
  using assms by (auto simp: rowHeader_def split: if_splits option.splits)

lemma speciesRow_Some:
  assumes "rowHeader d = Some (yh, idx, y)"
  shows "speciesRow d st =
      addCount (trim (hd (splitStr LF (trim (str (cell d 0)))))) y
        (case parseMaybeInt (cell d 2) of None \<Rightarrow> 0 | Some n \<Rightarrow> n)
        ((addMeta idx y (yh_CountDate yh) st)
           \<lparr>ss_participantsEffort :=
              fillExisting yh idx (ss_participantsEffort (addMeta idx y (yh_CountDate yh) st))\<rparr>)"
  using rowHeader_Some [OF assms] by (simp add: speciesRow_def Let_def)

lemma pe_speciesRow_eq:
  "ss_participantsEffort (speciesRow d st) = fillStep (ss_participantsEffort st) d"
proof (cases "rowHeader d")
  case None
  then show ?thesis
    by (simp add: speciesRow_None fillStep_def)
next
  case (Some a)
  then obtain yh idx y where a: "rowHeader d = Some (yh, idx, y)"
    by (cases a) auto
  show ?thesis
    unfolding speciesRow_Some [OF a] by (simp add: fillStep_def a pe_addCount pe_addMeta)
qed

lemma seen_speciesRow_eq:
  "ss_metaSeen (speciesRow d st) =
     (case headerMeta d of None \<Rightarrow> ss_metaSeen st | Some m \<Rightarrow> insert (m_CountIndex m) (ss_metaSeen st))"
proof (cases "rowHeader d")
  case None
  then show ?thesis
    by (simp add: speciesRow_None headerMeta_def)
next
  case (Some a)
  then obtain yh idx y where a: "rowHeader d = Some (yh, idx, y)"
    by (cases a) auto
  show ?thesis
    unfolding speciesRow_Some [OF a]
    by (auto simp: headerMeta_def a addCount_def addMeta_def Let_def)
qed

lemma meta_speciesRow_eq:
  "ss_meta (speciesRow d st) =
     (case headerMeta d of
        None \<Rightarrow> ss_meta st
      | Some m \<Rightarrow> if m_CountIndex m \<in> ss_metaSeen st then ss_meta st else ss_meta st @ [m])"
proof (cases "rowHeader d")
  case None
  then show ?thesis
    by (simp add: speciesRow_None headerMeta_def)
next
  case (Some a)
  then obtain yh idx y where a: "rowHeader d = Some (yh, idx, y)"
    by (cases a) auto
  show ?thesis
    unfolding speciesRow_Some [OF a]
    by (simp add: headerMeta_def a addCount_def addMeta_def Let_def)
qed

lemma meta_speciesRows_eq:
  "ss_meta (speciesRows ds st) =
     ss_meta st @
       firstPerIndex (ss_metaSeen st) (List.map_filter headerMeta (takeWhile (\<lambda>d. d \<noteq> []) ds))"
proof (induction ds arbitrary: st)
  case Nil
  show ?case by (simp add: map_filter_simps)
next
  case (Cons d ds)
  show ?case
  proof (cases "d = []")
    case True
    then show ?thesis by (simp add: map_filter_simps)
  next
    case False
    note IH = Cons.IH [of "speciesRow d st"]
    show ?thesis
    proof (cases "headerMeta d")
      case None
      with False IH show ?thesis
        by (simp add: map_filter_simps meta_speciesRow_eq seen_speciesRow_eq)
    next
      case (Some m)
      with False IH show ?thesis
        by (simp add: map_filter_simps meta_speciesRow_eq seen_speciesRow_eq insert_absorb)
    qed
  qed
qed

lemma pe_speciesRows_eq:
  "ss_participantsEffort (speciesRows ds st) =
     foldl fillStep (ss_participantsEffort st) (takeWhile (\<lambda>d. d \<noteq> []) ds)"
  by (induction ds arbitrary: st) (simp_all add: pe_speciesRow_eq)

lemma meta_scanSpecies_eq:
  "ss_meta (scanSpecies rs pe) = firstPerIndex {} (List.map_filter headerMeta (speciesSection rs))"
proof (cases "dropWhile (\<lambda>r. \<not> isSpeciesSentinel r) rs")
  case Nil
  show ?thesis
    unfolding scanSpecies_def speciesSection_def Let_def Nil by (simp add: map_filter_simps)
next
  case (Cons r ds)
  show ?thesis
    unfolding scanSpecies_def speciesSection_def Let_def Cons
    by (simp add: meta_speciesRows_eq)
qed

lemma pe_scanSpecies_eq:
  "ss_participantsEffort (scanSpecies rs pe) = foldl fillStep pe (speciesSection rs)"
proof (cases "dropWhile (\<lambda>r. \<not> isSpeciesSentinel r) rs")
  case Nil
  show ?thesis
    unfolding scanSpecies_def speciesSection_def Let_def Nil by simp
next
  case (Cons r ds)
  show ?thesis
    unfolding scanSpecies_def speciesSection_def Let_def Cons
    by (simp add: pe_speciesRows_eq)
qed

lemma speciesSection_after_sentinel:
  assumes "\<forall>p \<in> set pre. \<not> isSpeciesSentinel p" and "isSpeciesSentinel r"
    and "[] \<notin> set ds"
  shows "speciesSection (pre @ r # ds) = ds"
proof -
  have "takeWhile (\<lambda>d. d \<noteq> []) ds = ds"
    using assms(3) by (auto simp: takeWhile_eq_all_conv)
  then show ?thesis
    using dropWhile_first [of pre isSpeciesSentinel r ds] assms(1,2)
    by (simp add: speciesSection_def)
qed

lemma speciesSection_no_sentinel:
  "\<forall>r \<in> set rs. \<not> isSpeciesSentinel r \<Longrightarrow> speciesSection rs = []"
proof -
  assume "\<forall>r \<in> set rs. \<not> isSpeciesSentinel r"
  then have h: "dropWhile (\<lambda>r. \<not> isSpeciesSentinel r) rs = []"
    by simp
  show ?thesis
    unfolding speciesSection_def h by simp
qed


lemma years_no_meta: "uniqueSortedYearsFromMeta [] = []"
  by (simp add: uniqueSortedYearsFromMeta_def)

lemma pe_extractTables:
  "participantsEffort (extractTables rs) = ss_participantsEffort (scanSpecies rs (scanEffort rs))"
  by (simp add: extractTables_def Let_def)

text \<open>
  Claim C7, as the code has it. For every input on which the call returns, \<open>years\<close> is
  strictly ascending (so it has no duplicates) and holds exactly the \<open>Year\<close> values of the
  metadata records. The metadata list comes from the composite headers of the rows after
  the species sentinel and from nothing else: it holds, in row order, the record of the
  first accepted header of each index; every record restates the year and the index of
  the header of such a row, and the list is the one the species scan builds with no
  participation/effort record at all. When the grid has a sentinel row, the rows read are
  all the rows after the first one, to the end of the grid, whatever section they belong
  to; when it has none, \<open>years\<close> is empty. No year is added to fill a gap: an export with a
  weather row, an effort row dated 2001 and species headers for 2002, 1999, 2000 and 1999
  again gives the years 1999, 2000, 2002.
\<close>

theorem years_from_rows_after_sentinel:
  "(parseCsvText 250000 200 t = Inr rs \<and> parseHistoricalResultsByCountCsv t = Inr res \<longrightarrow>
      sorted_wrt (<) (years res)
      \<and> set (years res) = m_Year ` set (meta res)
      \<and> meta res = firstPerIndex {} (List.map_filter headerMeta (speciesSection rs))
      \<and> (\<forall>m \<in> set (meta res). \<exists>d \<in> set (speciesSection rs). fromHeaderOf m d)
      \<and> meta res = ss_meta (scanSpecies rs [])
      \<and> (rs = pre @ r # ds \<and> (\<forall>p \<in> set pre. \<not> isSpeciesSentinel p) \<and> isSpeciesSentinel r \<longrightarrow>
           speciesSection rs = ds)
      \<and> ((\<forall>r \<in> set rs. \<not> isSpeciesSentinel r) \<longrightarrow> years res = []))
   \<and> map_sum id years
        (parseHistoricalResultsByCountCsv
          ''CountYear3,LowTemp\<newline>4,20\<newline>CountYear5\<newline>4,12/20/2001\<newline>COM_NAME,CountYear,how_many\<newline>Mallard,2002 [3],5\<newline>Mallard,1999 [1],7\<newline>Robin,2000 [2],1\<newline>Robin,1999 [1],2'')
       = Inr [1999, 2000, 2002]"
proof (intro conjI impI)
  assume a: "parseCsvText 250000 200 t = Inr rs \<and> parseHistoricalResultsByCountCsv t = Inr res"
  then have res: "res = extractTables rs"
    by (auto simp: parseHistoricalResultsByCountCsv_def)
  show "sorted_wrt (<) (years res)"
    unfolding res years_extractTables by (rule uniqueSortedYears_strict)
  show "set (years res) = m_Year ` set (meta res)"
    unfolding res years_extractTables by (rule uniqueSortedYears_set)
  show m: "meta res = firstPerIndex {} (List.map_filter headerMeta (speciesSection rs))"
    unfolding res meta_extractTables by (rule meta_scanSpecies_eq)
  show "\<forall>m \<in> set (meta res). \<exists>d \<in> set (speciesSection rs). fromHeaderOf m d"
    unfolding res meta_extractTables using meta_scanSpecies by blast
  show "meta res = ss_meta (scanSpecies rs [])"
    unfolding res meta_extractTables by (rule meta_scanSpecies_indep)
  {
    assume b: "rs = pre @ r # ds \<and> (\<forall>p \<in> set pre. \<not> isSpeciesSentinel p) \<and> isSpeciesSentinel r"
    from a have "[] \<notin> set rs"
      by (auto dest: no_empty_row)
    with b have "[] \<notin> set ds"
      by simp
    with b show "speciesSection rs = ds"
      by (simp add: speciesSection_after_sentinel)
  }
  {
    assume "\<forall>r \<in> set rs. \<not> isSpeciesSentinel r"
    then have "speciesSection rs = []"
      by (rule speciesSection_no_sentinel)
    with m have "meta res = []"
      by (simp add: map_filter_simps)
    then show "years res = []"
      unfolding res years_extractTables by (simp add: years_no_meta)
  }
next
  let ?g = "[[''CountYear3'', ''LowTemp''], [''4'', ''20''], [''CountYear5''], [''4'', ''12/20/2001''],
      [''COM_NAME'', ''CountYear'', ''how_many''], [''Mallard'', ''2002 [3]'', ''5''],
      [''Mallard'', ''1999 [1]'', ''7''], [''Robin'', ''2000 [2]'', ''1''],
      [''Robin'', ''1999 [1]'', ''2'']]"
  have y: "uniqueSortedYearsFromMeta (ss_meta (scanSpecies ?g (scanEffort ?g))) = [1999, 2000, 2002]"
    by code_simp
  show "map_sum id years
        (parseHistoricalResultsByCountCsv
          ''CountYear3,LowTemp\<newline>4,20\<newline>CountYear5\<newline>4,12/20/2001\<newline>COM_NAME,CountYear,how_many\<newline>Mallard,2002 [3],5\<newline>Mallard,1999 [1],7\<newline>Robin,2000 [2],1\<newline>Robin,1999 [1],2'')
       = Inr [1999, 2000, 2002]"
    by (simp add: parseHistoricalResultsByCountCsv_def lex_eval years_extractTables
        meta_extractTables y)
qed

theorem years_from_rows_after_sentinel_witness:
  "parseCsvText 250000 200 ''x,1998 [7]\<newline>COM_NAME,CountYear\<newline>Robin,2000 [2]\<newline>Robin,1999 [1]\<newline>Wren,1997 [2]''
      = Inr [[''x'', ''1998 [7]''], [''COM_NAME'', ''CountYear''], [''Robin'', ''2000 [2]''],
             [''Robin'', ''1999 [1]''], [''Wren'', ''1997 [2]'']]
   \<and> parseHistoricalResultsByCountCsv ''x,1998 [7]\<newline>COM_NAME,CountYear\<newline>Robin,2000 [2]\<newline>Robin,1999 [1]\<newline>Wren,1997 [2]''
      = Inr (extractTables [[''x'', ''1998 [7]''], [''COM_NAME'', ''CountYear''],
             [''Robin'', ''2000 [2]''], [''Robin'', ''1999 [1]''], [''Wren'', ''1997 [2]'']])
   \<and> \<not> isSpeciesSentinel [''x'', ''1998 [7]''] \<and> isSpeciesSentinel [''COM_NAME'', ''CountYear'']
   \<and> speciesSection [[''x'', ''1998 [7]''], [''COM_NAME'', ''CountYear''], [''Robin'', ''2000 [2]''],
             [''Robin'', ''1999 [1]''], [''Wren'', ''1997 [2]'']]
      = [[''Robin'', ''2000 [2]''], [''Robin'', ''1999 [1]''], [''Wren'', ''1997 [2]'']]
   \<and> map m_Year (meta (extractTables [[''x'', ''1998 [7]''], [''COM_NAME'', ''CountYear''],
             [''Robin'', ''2000 [2]''], [''Robin'', ''1999 [1]''], [''Wren'', ''1997 [2]'']]))
      = [2000, 1999]
   \<and> years (extractTables [[''x'', ''1998 [7]''], [''COM_NAME'', ''CountYear''],
             [''Robin'', ''2000 [2]''], [''Robin'', ''1999 [1]''], [''Wren'', ''1997 [2]'']])
      = [1999, 2000]
   \<and> parseCsvText 250000 200 ''x,1998 [7]'' = Inr [[''x'', ''1998 [7]'']]
   \<and> parseHistoricalResultsByCountCsv ''x,1998 [7]'' = Inr (extractTables [[''x'', ''1998 [7]'']])
   \<and> years (extractTables [[''x'', ''1998 [7]'']]) = []"
proof -
  let ?t = "''x,1998 [7]\<newline>COM_NAME,CountYear\<newline>Robin,2000 [2]\<newline>Robin,1999 [1]\<newline>Wren,1997 [2]''"
  let ?ds = "[[''Robin'', ''2000 [2]''], [''Robin'', ''1999 [1]''], [''Wren'', ''1997 [2]'']]"
  let ?g = "[[''x'', ''1998 [7]''], [''COM_NAME'', ''CountYear''], [''Robin'', ''2000 [2]''],
             [''Robin'', ''1999 [1]''], [''Wren'', ''1997 [2]'']]"
  let ?u = "''x,1998 [7]''"
  let ?k = "[[''x'', ''1998 [7]'']]"
  have l: "parseCsvText 250000 200 ?t = Inr ?g"
    by (simp add: lex_eval)
  then have h: "parseHistoricalResultsByCountCsv ?t = Inr (extractTables ?g)"
    by (rule parse_extractTables)
  have s: "\<not> isSpeciesSentinel [''x'', ''1998 [7]'']" "isSpeciesSentinel [''COM_NAME'', ''CountYear'']"
    by code_simp+
  have y: "uniqueSortedYearsFromMeta (ss_meta (scanSpecies ?g (scanEffort ?g))) = [1999, 2000]"
    by code_simp
  have m: "map m_Year (ss_meta (scanSpecies ?g (scanEffort ?g))) = [2000, 1999]"
    by code_simp
  have l': "parseCsvText 250000 200 ?u = Inr ?k"
    by (simp add: lex_eval)
  then have h': "parseHistoricalResultsByCountCsv ?u = Inr (extractTables ?k)"
    by (rule parse_extractTables)
  have a: "speciesSection ?g = ?ds"
    using l h s
      years_from_rows_after_sentinel [of ?t ?g "extractTables ?g" "[[''x'', ''1998 [7]'']]"
        "[''COM_NAME'', ''CountYear'']" ?ds]
    by simp
  have b: "years (extractTables ?k) = []"
    using l' h' s(1) years_from_rows_after_sentinel [of ?u ?k "extractTables ?k"]
    by simp
  show ?thesis
    using l h s a b l' h' by (simp add: years_extractTables meta_extractTables y m)
qed

text \<open>
  Claim C7 as the specification words it lets no row of the weather and
  participation/effort sections contribute to \<open>years\<close>, and gives the years 1999, 2000 and
  2002 to species data whose headers carry them. In the first export the effort section
  stands after the species section. The species loop runs to the end of the grid, so it
  reads the effort data row \<open>7,2005 [9],3\<close> as well; the second cell of that row parses as
  a composite header, and 2005 is in \<open>years\<close>, while the effort section gives the record of
  index 7. In the second export the three headers share the index 1: only the first of
  them gives a metadata record, and \<open>years\<close> holds 1999 alone.
\<close>

theorem years_effort_row_counterexample:
  "map_sum id years
      (parseHistoricalResultsByCountCsv
        ''COM_NAME,CountYear\<newline>Robin,1999 [1],5\<newline>CountYear5\<newline>7,2005 [9],3'')
     = Inr [1999, 2005]
   \<and> map_sum id (map pe_CountIndex \<circ> participantsEffort)
      (parseHistoricalResultsByCountCsv
        ''COM_NAME,CountYear\<newline>Robin,1999 [1],5\<newline>CountYear5\<newline>7,2005 [9],3'')
     = Inr [7]
   \<and> map_sum id years
      (parseHistoricalResultsByCountCsv
        ''COM_NAME,CountYear\<newline>Robin,1999 [1],5\<newline>Robin,2000 [1],2\<newline>Robin,2002 [1],4'')
     = Inr [1999]"
proof -
  let ?g = "[[''COM_NAME'', ''CountYear''], [''Robin'', ''1999 [1]'', ''5''], [''CountYear5''],
      [''7'', ''2005 [9]'', ''3'']]"
  let ?k = "[[''COM_NAME'', ''CountYear''], [''Robin'', ''1999 [1]'', ''5''],
      [''Robin'', ''2000 [1]'', ''2''], [''Robin'', ''2002 [1]'', ''4'']]"
  have h: "parseHistoricalResultsByCountCsv
        ''COM_NAME,CountYear\<newline>Robin,1999 [1],5\<newline>CountYear5\<newline>7,2005 [9],3''
      = Inr (extractTables ?g)"
    by (simp add: parseHistoricalResultsByCountCsv_def lex_eval)
  have h': "parseHistoricalResultsByCountCsv
        ''COM_NAME,CountYear\<newline>Robin,1999 [1],5\<newline>Robin,2000 [1],2\<newline>Robin,2002 [1],4''
      = Inr (extractTables ?k)"
    by (simp add: parseHistoricalResultsByCountCsv_def lex_eval)
  have y: "uniqueSortedYearsFromMeta (ss_meta (scanSpecies ?g (scanEffort ?g))) = [1999, 2005]"
    by code_simp
  have e: "map pe_CountIndex (ss_participantsEffort (scanSpecies ?g (scanEffort ?g))) = [7]"
    by code_simp
  have y': "uniqueSortedYearsFromMeta (ss_meta (scanSpecies ?k (scanEffort ?k))) = [1999]"
    by code_simp
  show ?thesis
    unfolding h h'
    by (simp add: years_extractTables meta_extractTables pe_extractTables y e y')
qed

subsection \<open>Filling participation/effort records from headers\<close>

lemma keeps_refl: "keeps e e"
  by (simp add: keeps_def)

lemma keeps_trans: "keeps a b \<Longrightarrow> keeps b c \<Longrightarrow> keeps a c"
  by (auto simp: keeps_def truthy_def)

lemma keeps_fillFromHeader: "keeps e (fillFromHeader yh e)"
  by (simp add: keeps_def fillFromHeader_def)

lemma list_all2_keeps_refl: "list_all2 keeps es es"
  by (simp add: list_all2_refl keeps_refl)

lemma keeps_fillExisting: "list_all2 keeps es (fillExisting yh idx es)"
  by (induction es) (simp_all add: keeps_fillFromHeader keeps_refl list_all2_keeps_refl)

lemma pe_speciesRow:
  "ss_participantsEffort (speciesRow d st) = ss_participantsEffort st
   \<or> (\<exists>yh idx. parseYearHeaderCell (str (cell d 1)) = Some yh \<and> yh_CountIndex yh = Some idx
        \<and> ss_participantsEffort (speciesRow d st) = fillExisting yh idx (ss_participantsEffort st))"
proof (cases d st rule: speciesRow_cases)
  case skip
  then show ?thesis by simp
next
  case (header yh idx y sp c)
  then show ?thesis
    by (simp add: pe_addCount pe_addMeta)
qed

lemma keeps_speciesRow:
  "list_all2 keeps (ss_participantsEffort st) (ss_participantsEffort (speciesRow d st))"
  using pe_speciesRow [of d st] by (auto simp: keeps_fillExisting list_all2_keeps_refl)

lemma list_all2_keeps_trans:
  "list_all2 keeps as bs \<Longrightarrow> list_all2 keeps bs cs \<Longrightarrow> list_all2 keeps as cs"
  by (rule list_all2_trans [of keeps keeps keeps]) (auto intro: keeps_trans)

lemma keeps_speciesRows:
  "list_all2 keeps (ss_participantsEffort st) (ss_participantsEffort (speciesRows ds st))"
proof (induction ds arbitrary: st)
  case Nil
  show ?case by (simp add: list_all2_keeps_refl)
next
  case (Cons d ds)
  show ?case
  proof (cases "d = []")
    case True
    then show ?thesis by (simp add: list_all2_keeps_refl)
  next
    case False
    have "list_all2 keeps (ss_participantsEffort st) (ss_participantsEffort (speciesRows ds (speciesRow d st)))"
      using keeps_speciesRow [of st d] Cons.IH [of "speciesRow d st"]
      by (rule list_all2_keeps_trans)
    with False show ?thesis by simp
  qed
qed

lemma keeps_scanSpecies: "list_all2 keeps pe (ss_participantsEffort (scanSpecies rs pe))"
proof (cases "dropWhile (\<lambda>r. \<not> isSpeciesSentinel r) rs")
  case Nil
  show ?thesis
    unfolding scanSpecies_def Let_def Nil by (simp add: list_all2_keeps_refl)
next
  case (Cons r ds)
  show ?thesis
    unfolding scanSpecies_def Let_def Cons
    using keeps_speciesRows [of "\<lparr>ss_meta = [], ss_metaSeen = {}, ss_participantsEffort = pe,
                 ss_countsBySpecies = []\<rparr>" ds] by simp
qed

lemma length_fillExisting: "length (fillExisting yh idx es) = length es"
  by (induction es) simp_all

lemma nth_fillExisting:
  "k < length es \<Longrightarrow>
     fillExisting yh idx es ! k =
       (if pe_CountIndex (es ! k) = idx \<and> idx \<notin> pe_CountIndex ` set (take k es)
        then fillFromHeader yh (es ! k) else es ! k)"
proof (induction es arbitrary: k)
  case Nil
  then show ?case by simp
next
  case (Cons e es)
  show ?case
  proof (cases k)
    case 0
    then show ?thesis by simp
  next
    case (Suc n)
    with Cons.prems have n: "n < length es" by simp
    show ?thesis
      using Suc Cons.IH [OF n] by (cases "pe_CountIndex e = idx") simp_all
  qed
qed

lemma rowHeader_eq:
  "trim (str (cell d 0)) \<noteq> [] \<Longrightarrow> truthy (cell d 1) \<Longrightarrow>
   parseYearHeaderCell (str (cell d 1)) = Some h \<Longrightarrow> yh_CountIndex h = Some i \<Longrightarrow>
   yh_Year h = Some y \<Longrightarrow> rowHeader d = Some (h, i, y)"
  by (simp add: rowHeader_def)

text \<open>
  Claim C9. The assignments on the record found copy a header sub-field into a field of
  the record only where the record has none: \<open>CountDate\<close> when it is \<open>null\<close> or empty,
  \<open>NumParticipants\<close>, \<open>NumSpeciesReported\<close> and \<open>NumHours\<close> when they are \<open>null\<close>; the
  index and the year are left alone. The record updated is the first one of the list
  with the header's index, every other record is unchanged. A data row with a species
  cell that is not blank and a header with an index and a year makes the species loop
  replace the list by the list so updated, and any other row leaves it as it is; the list
  of the result is the list of the effort section after the update of every row of the
  species section, in row order. Hence every record of the result keeps each field the
  effort section gave it. In the export of the last conjunct the record of index 3 takes
  its date, hours and species number from the header and keeps its 10 participants, and
  the record of index 4 keeps its date and takes the 7 participants of the header.
\<close>

theorem header_fills_only_null_fields:
  \<open>pe_CountDate (fillFromHeader yh e) =
       (if truthy (pe_CountDate e) then pe_CountDate e
        else if truthy (yh_CountDate yh) then yh_CountDate yh else pe_CountDate e)
   \<and> pe_NumParticipants (fillFromHeader yh e) =
       (case pe_NumParticipants e of Some v \<Rightarrow> Some v | None \<Rightarrow> yh_NumParticipants yh)
   \<and> pe_NumSpeciesReported (fillFromHeader yh e) =
       (case pe_NumSpeciesReported e of Some v \<Rightarrow> Some v | None \<Rightarrow> yh_NumSpeciesReported yh)
   \<and> pe_NumHours (fillFromHeader yh e) =
       (case pe_NumHours e of Some v \<Rightarrow> Some v | None \<Rightarrow> yh_TotalHrs yh)
   \<and> pe_CountIndex (fillFromHeader yh e) = pe_CountIndex e
   \<and> pe_Year (fillFromHeader yh e) = pe_Year e
   \<and> length (fillExisting yh idx es) = length es
   \<and> (\<forall>k<length es.
        fillExisting yh idx es ! k =
          (if pe_CountIndex (es ! k) = idx \<and> idx \<notin> pe_CountIndex ` set (take k es)
           then fillFromHeader yh (es ! k) else es ! k))
   \<and> (trim (str (cell d 0)) \<noteq> [] \<and> truthy (cell d 1)
        \<and> parseYearHeaderCell (str (cell d 1)) = Some h \<and> yh_CountIndex h = Some i
        \<and> yh_Year h = Some y \<longrightarrow>
      ss_participantsEffort (speciesRow d st) = fillExisting h i (ss_participantsEffort st))
   \<and> ss_participantsEffort (speciesRow d st) = fillStep (ss_participantsEffort st) d
   \<and> participantsEffort (extractTables rs) = foldl fillStep (scanEffort rs) (speciesSection rs)
   \<and> list_all2 keeps (scanEffort rs) (participantsEffort (extractTables rs))
   \<and> map_sum id participantsEffort
       (parseHistoricalResultsByCountCsv
         ''CountYear5\<newline>3,,10\<newline>4,1/2/2004\<newline>COM_NAME,CountYear\<newline>Robin,"1987 [3]\<newline>Count Date: 12/27/1987\<newline># Participants: 42\<newline># Species Reported: 87\<newline>Total Hrs.: 6.5",5\<newline>Wren,"2004 [4]\<newline>Count Date: 1/3/2004\<newline># Participants: 7"'')
     = Inr [\<lparr>pe_CountIndex = 3, pe_CountDate = Some ''12/27/1987'', pe_Year = None,
              pe_NumParticipants = Some (Fin 10), pe_NumHours = Some (Fin (13 / 2)),
              pe_NumSpeciesReported = Some (Fin 87)\<rparr>,
            \<lparr>pe_CountIndex = 4, pe_CountDate = Some ''1/2/2004'', pe_Year = None,
              pe_NumParticipants = Some (Fin 7), pe_NumHours = None,
              pe_NumSpeciesReported = None\<rparr>]\<close>
proof -
  have "list_all2 keeps (scanEffort rs) (participantsEffort (extractTables rs))"
    using keeps_scanSpecies [of "scanEffort rs" rs] by (simp add: extractTables_def Let_def)
  moreover have "\<forall>k<length es.
        fillExisting yh idx es ! k =
          (if pe_CountIndex (es ! k) = idx \<and> idx \<notin> pe_CountIndex ` set (take k es)
           then fillFromHeader yh (es ! k) else es ! k)"
    using nth_fillExisting by blast
  moreover have "pe_NumParticipants (fillFromHeader yh e) =
       (case pe_NumParticipants e of Some v \<Rightarrow> Some v | None \<Rightarrow> yh_NumParticipants yh)"
    by (cases "pe_NumParticipants e") (simp_all add: fillFromHeader_def)
  moreover have "pe_NumSpeciesReported (fillFromHeader yh e) =
       (case pe_NumSpeciesReported e of Some v \<Rightarrow> Some v | None \<Rightarrow> yh_NumSpeciesReported yh)"
    by (cases "pe_NumSpeciesReported e") (simp_all add: fillFromHeader_def)
  moreover have "pe_NumHours (fillFromHeader yh e) =
       (case pe_NumHours e of Some v \<Rightarrow> Some v | None \<Rightarrow> yh_TotalHrs yh)"
    by (cases "pe_NumHours e") (simp_all add: fillFromHeader_def)
  moreover have "pe_CountDate (fillFromHeader yh e) =
       (if truthy (pe_CountDate e) then pe_CountDate e
        else if truthy (yh_CountDate yh) then yh_CountDate yh else pe_CountDate e)"
    by (simp add: fillFromHeader_def)
  moreover have "pe_CountIndex (fillFromHeader yh e) = pe_CountIndex e"
    and "pe_Year (fillFromHeader yh e) = pe_Year e"
    by (simp_all add: fillFromHeader_def)
  moreover have "trim (str (cell d 0)) \<noteq> [] \<and> truthy (cell d 1)
        \<and> parseYearHeaderCell (str (cell d 1)) = Some h \<and> yh_CountIndex h = Some i
        \<and> yh_Year h = Some y \<longrightarrow>
      ss_participantsEffort (speciesRow d st) = fillExisting h i (ss_participantsEffort st)"
    by (simp add: pe_speciesRow_eq fillStep_def rowHeader_eq)
  moreover have "participantsEffort (extractTables rs)
      = foldl fillStep (scanEffort rs) (speciesSection rs)"
    by (simp only: pe_extractTables pe_scanSpecies_eq)
  moreover have \<open>map_sum id participantsEffort
       (parseHistoricalResultsByCountCsv
         ''CountYear5\<newline>3,,10\<newline>4,1/2/2004\<newline>COM_NAME,CountYear\<newline>Robin,"1987 [3]\<newline>Count Date: 12/27/1987\<newline># Participants: 42\<newline># Species Reported: 87\<newline>Total Hrs.: 6.5",5\<newline>Wren,"2004 [4]\<newline>Count Date: 1/3/2004\<newline># Participants: 7"'')
     = Inr [\<lparr>pe_CountIndex = 3, pe_CountDate = Some ''12/27/1987'', pe_Year = None,
              pe_NumParticipants = Some (Fin 10), pe_NumHours = Some (Fin (13 / 2)),
              pe_NumSpeciesReported = Some (Fin 87)\<rparr>,
            \<lparr>pe_CountIndex = 4, pe_CountDate = Some ''1/2/2004'', pe_Year = None,
              pe_NumParticipants = Some (Fin 7), pe_NumHours = None,
              pe_NumSpeciesReported = None\<rparr>]\<close>
  proof -
    let ?g = "[[''CountYear5''], [''3'', [], ''10''], [''4'', ''1/2/2004''],
        [''COM_NAME'', ''CountYear''],
        [''Robin'', ''1987 [3]\<newline>Count Date: 12/27/1987\<newline># Participants: 42\<newline># Species Reported: 87\<newline>Total Hrs.: 6.5'', ''5''],
        [''Wren'', ''2004 [4]\<newline>Count Date: 1/3/2004\<newline># Participants: 7'']]"
    have p: "ss_participantsEffort (scanSpecies ?g (scanEffort ?g))
       = [\<lparr>pe_CountIndex = 3, pe_CountDate = Some ''12/27/1987'', pe_Year = None,
              pe_NumParticipants = Some (Fin 10), pe_NumHours = Some (Fin (13 / 2)),
              pe_NumSpeciesReported = Some (Fin 87)\<rparr>,
            \<lparr>pe_CountIndex = 4, pe_CountDate = Some ''1/2/2004'', pe_Year = None,
              pe_NumParticipants = Some (Fin 7), pe_NumHours = None,
              pe_NumSpeciesReported = None\<rparr>]"
      by code_simp
    show ?thesis
      by (simp add: parseHistoricalResultsByCountCsv_def lex_eval pe_extractTables p)
  qed
  ultimately show ?thesis
    by (simp only: length_fillExisting pe_speciesRow_eq simp_thms)
qed

theorem header_fills_only_null_fields_witness:
  \<open>trim (str (cell [''Robin'', ''1987 [3]\<newline>Total Hrs.: 6.5''] 0)) \<noteq> []
   \<and> truthy (cell [''Robin'', ''1987 [3]\<newline>Total Hrs.: 6.5''] 1)
   \<and> parseYearHeaderCell (str (cell [''Robin'', ''1987 [3]\<newline>Total Hrs.: 6.5''] 1))
       = Some \<lparr>yh_Year = Some 1987, yh_CountIndex = Some 3, yh_CountDate = None,
           yh_NumParticipants = None, yh_NumSpeciesReported = None,
           yh_TotalHrs = Some (Fin (13 / 2))\<rparr>
   \<and> scanEffort [[''CountYear5''], [''2'', ''1/3/1986''], [''3'', [], ''10''],
                [''COM_NAME'', ''CountYear''], [''Robin'', ''1987 [3]\<newline>Total Hrs.: 6.5'']]
       = [\<lparr>pe_CountIndex = 2, pe_CountDate = Some ''1/3/1986'', pe_Year = None,
            pe_NumParticipants = None, pe_NumHours = None, pe_NumSpeciesReported = None\<rparr>,
          \<lparr>pe_CountIndex = 3, pe_CountDate = None, pe_Year = None,
            pe_NumParticipants = Some (Fin 10), pe_NumHours = None,
            pe_NumSpeciesReported = None\<rparr>]
   \<and> (1::nat) < length
        (scanEffort [[''CountYear5''], [''2'', ''1/3/1986''], [''3'', [], ''10''],
                [''COM_NAME'', ''CountYear''], [''Robin'', ''1987 [3]\<newline>Total Hrs.: 6.5'']])
   \<and> ss_participantsEffort
        (speciesRow [''Robin'', ''1987 [3]\<newline>Total Hrs.: 6.5'']
          \<lparr>ss_meta = [], ss_metaSeen = {},
            ss_participantsEffort =
              scanEffort [[''CountYear5''], [''2'', ''1/3/1986''], [''3'', [], ''10''],
                [''COM_NAME'', ''CountYear''], [''Robin'', ''1987 [3]\<newline>Total Hrs.: 6.5'']],
            ss_countsBySpecies = []\<rparr>)
       = [\<lparr>pe_CountIndex = 2, pe_CountDate = Some ''1/3/1986'', pe_Year = None,
            pe_NumParticipants = None, pe_NumHours = None, pe_NumSpeciesReported = None\<rparr>,
          \<lparr>pe_CountIndex = 3, pe_CountDate = None, pe_Year = None,
            pe_NumParticipants = Some (Fin 10), pe_NumHours = Some (Fin (13 / 2)),
            pe_NumSpeciesReported = None\<rparr>]
   \<and> participantsEffort
        (extractTables [[''CountYear5''], [''2'', ''1/3/1986''], [''3'', [], ''10''],
                [''COM_NAME'', ''CountYear''], [''Robin'', ''1987 [3]\<newline>Total Hrs.: 6.5'']])
       = [\<lparr>pe_CountIndex = 2, pe_CountDate = Some ''1/3/1986'', pe_Year = None,
            pe_NumParticipants = None, pe_NumHours = None, pe_NumSpeciesReported = None\<rparr>,
          \<lparr>pe_CountIndex = 3, pe_CountDate = None, pe_Year = None,
            pe_NumParticipants = Some (Fin 10), pe_NumHours = Some (Fin (13 / 2)),
            pe_NumSpeciesReported = None\<rparr>]
   \<and> truthy (Some ''1/3/1986'')
   \<and> list_all2 keeps
        (scanEffort [[''CountYear5''], [''2'', ''1/3/1986''], [''3'', [], ''10''],
                [''COM_NAME'', ''CountYear''], [''Robin'', ''1987 [3]\<newline>Total Hrs.: 6.5'']])
        (participantsEffort
          (extractTables [[''CountYear5''], [''2'', ''1/3/1986''], [''3'', [], ''10''],
                [''COM_NAME'', ''CountYear''], [''Robin'', ''1987 [3]\<newline>Total Hrs.: 6.5'']]))\<close>
proof -
  let ?d = "[''Robin'', ''1987 [3]\<newline>Total Hrs.: 6.5'']"
  let ?g = "[[''CountYear5''], [''2'', ''1/3/1986''], [''3'', [], ''10''],
                [''COM_NAME'', ''CountYear''], ?d]"
  let ?h = "\<lparr>yh_Year = Some 1987, yh_CountIndex = Some 3, yh_CountDate = None,
           yh_NumParticipants = None, yh_NumSpeciesReported = None,
           yh_TotalHrs = Some (Fin (13 / 2))\<rparr>"
  let ?e2 = "\<lparr>pe_CountIndex = 2, pe_CountDate = Some ''1/3/1986'', pe_Year = None,
            pe_NumParticipants = None, pe_NumHours = None, pe_NumSpeciesReported = None\<rparr>"
  let ?e3 = "\<lparr>pe_CountIndex = 3, pe_CountDate = None, pe_Year = None,
            pe_NumParticipants = Some (Fin 10), pe_NumHours = None,
            pe_NumSpeciesReported = None\<rparr>"
  let ?st = "\<lparr>ss_meta = [], ss_metaSeen = {}, ss_participantsEffort = scanEffort ?g,
            ss_countsBySpecies = []\<rparr>"
  have c: "trim (str (cell ?d 0)) \<noteq> []" "truthy (cell ?d 1)"
    by code_simp+
  have h: "parseYearHeaderCell (str (cell ?d 1)) = Some ?h"
    by code_simp
  have e: "scanEffort ?g = [?e2, ?e3]"
    by code_simp
  have s: "speciesSection ?g = [?d]"
    by code_simp
  have r: "rowHeader ?d = Some (?h, 3, 1987)"
    using c h by (simp add: rowHeader_def)
  have t: "truthy (Some ''1/3/1986'')"
    by (simp add: truthy_def)
  show ?thesis
    using c h t header_fills_only_null_fields [of ?h ?e3 3 "[?e2, ?e3]" ?d ?h 3 1987 ?st ?g]
    by (simp add: e s r fillStep_def fillFromHeader_def truthy_def keeps_def)
qed

subsection \<open>Resolving the year of a participation/effort record\<close>

lemma meta_inv_addMeta: "meta_inv st \<Longrightarrow> meta_inv (addMeta idx y date st)"
  by (auto simp: meta_inv_def addMeta_def)

lemma meta_inv_speciesRow: "meta_inv st \<Longrightarrow> meta_inv (speciesRow d st)"
proof (cases d st rule: speciesRow_cases)
  case skip
  assume "meta_inv st"
  with skip show ?thesis by simp
next
  case (header yh idx y sp c)
  assume "meta_inv st"
  then have "meta_inv (addMeta idx y (yh_CountDate yh) st)"
    by (rule meta_inv_addMeta)
  then show ?thesis
    unfolding header by (simp add: meta_inv_def addCount_def Let_def)
qed

lemma meta_inv_speciesRows: "meta_inv st \<Longrightarrow> meta_inv (speciesRows ds st)"
  by (induction ds arbitrary: st) (simp_all add: meta_inv_speciesRow)

lemma meta_inv_scanSpecies: "meta_inv (scanSpecies rs pe)"
proof (cases "dropWhile (\<lambda>r. \<not> isSpeciesSentinel r) rs")
  case Nil
  show ?thesis
    unfolding scanSpecies_def Let_def Nil by (simp add: meta_inv_def)
next
  case (Cons r ds)
  have "meta_inv \<lparr>ss_meta = [], ss_metaSeen = {}, ss_participantsEffort = pe,
      ss_countsBySpecies = []\<rparr>"
    by (simp add: meta_inv_def)
  then show ?thesis
    unfolding scanSpecies_def Let_def Cons
    by (simp add: meta_inv_speciesRows)
qed

lemma distinct_meta_extractTables: "distinct (map m_CountIndex (meta (extractTables rs)))"
  using meta_inv_scanSpecies [of rs "scanEffort rs"]
  by (simp add: meta_extractTables meta_inv_def)

lemma foldl_metaYear:
  "distinct (map m_CountIndex ms) \<Longrightarrow>
     foldl (\<lambda>m r. m(m_CountIndex r \<mapsto> m_Year r)) m0 ms k =
       (case find (\<lambda>m. m_CountIndex m = k) ms of Some m \<Rightarrow> Some (m_Year m) | None \<Rightarrow> m0 k)"
proof (induction ms arbitrary: m0)
  case Nil
  then show ?case by simp
next
  case (Cons a ms)
  from Cons.prems have d: "distinct (map m_CountIndex ms)" and a: "m_CountIndex a \<notin> m_CountIndex ` set ms"
    by simp_all
  show ?case
  proof (cases "m_CountIndex a = k")
    case True
    with a have "\<forall>m \<in> set ms. m_CountIndex m \<noteq> k"
      by blast
    then have "find (\<lambda>m. m_CountIndex m = k) ms = None"
      by (simp add: find_None_iff)
    with True Cons.IH [OF d] show ?thesis by simp
  next
    case False
    with Cons.IH [OF d] show ?thesis by simp
  qed
qed

lemma metaYearByIdx_find:
  "distinct (map m_CountIndex ms) \<Longrightarrow>
     metaYearByIdx ms k = map_option m_Year (find (\<lambda>m. m_CountIndex m = k) ms)"
  by (simp add: metaYearByIdx_def foldl_metaYear split: option.splits)

lemma pe_Year_fillExisting: "map pe_Year (fillExisting yh idx es) = map pe_Year es"
  by (induction es) (simp_all add: fillFromHeader_def)

lemma pe_Year_effortRows: "e \<in> set (effortRows ds) \<Longrightarrow> pe_Year e = None"
  by (induction ds) (auto simp: effortOf_def split: if_splits option.splits)


lemma isYearToken_length: "isYearToken y \<Longrightarrow> length y = 4"
  by (simp add: isYearToken_def)

lemma yearTokenAt_0:
  "yearTokenAt b (c # cs) 0 \<longleftrightarrow>
     \<not> b \<and> isYearToken (take 4 (c # cs))
     \<and> (drop 4 (c # cs) = [] \<or> \<not> isWordChar (hd (drop 4 (c # cs))))"
proof (cases "4 \<le> length (c # cs)")
  case True
  then have "drop 4 (c # cs) \<noteq> [] \<Longrightarrow> hd (drop 4 (c # cs)) = (c # cs) ! 4"
    by (simp add: hd_drop_conv_nth)
  with True show ?thesis
    by (auto simp: yearTokenAt_def)
next
  case False
  then have "\<not> isYearToken (take 4 (c # cs))"
    by (auto dest: isYearToken_length)
  with False show ?thesis
    by (simp add: yearTokenAt_def)
qed

lemma yearTokenAt_Suc: "yearTokenAt b (c # cs) (Suc i) \<longleftrightarrow> yearTokenAt (isWordChar c) cs i"
  by (cases i) (simp_all add: yearTokenAt_def)

lemma yearTokenSearch_Some:
  "yearTokenSearch b s = Some y \<longleftrightarrow>
     (\<exists>i. yearTokenAt b s i \<and> (\<forall>j<i. \<not> yearTokenAt b s j) \<and> y = take 4 (drop i s))"
proof (induction s arbitrary: b)
  case Nil
  show ?case by (simp add: yearTokenAt_def)
next
  case (Cons c cs)
  show ?case
  proof (cases "yearTokenAt b (c # cs) 0")
    case True
    then have "yearTokenSearch b (c # cs) = Some (take 4 (c # cs))"
      using yearTokenAt_0 [of b c cs] by simp
    moreover have "(\<exists>i. yearTokenAt b (c # cs) i \<and> (\<forall>j<i. \<not> yearTokenAt b (c # cs) j)
        \<and> y = take 4 (drop i (c # cs))) \<longleftrightarrow> y = take 4 (c # cs)"
    proof
      assume "\<exists>i. yearTokenAt b (c # cs) i \<and> (\<forall>j<i. \<not> yearTokenAt b (c # cs) j)
        \<and> y = take 4 (drop i (c # cs))"
      then obtain i where i: "\<forall>j<i. \<not> yearTokenAt b (c # cs) j" "y = take 4 (drop i (c # cs))"
        by blast
      with True have "i = 0"
        by (cases i) auto
      with i show "y = take 4 (c # cs)" by simp
    next
      assume "y = take 4 (c # cs)"
      with True show "\<exists>i. yearTokenAt b (c # cs) i \<and> (\<forall>j<i. \<not> yearTokenAt b (c # cs) j)
        \<and> y = take 4 (drop i (c # cs))"
        by (intro exI [of _ 0]) simp
    qed
    ultimately show ?thesis by auto
  next
    case False
    then have s: "yearTokenSearch b (c # cs) = yearTokenSearch (isWordChar c) cs"
      using yearTokenAt_0 [of b c cs] by auto
    have "(\<exists>i. yearTokenAt b (c # cs) i \<and> (\<forall>j<i. \<not> yearTokenAt b (c # cs) j)
        \<and> y = take 4 (drop i (c # cs)))
      \<longleftrightarrow> (\<exists>i. yearTokenAt (isWordChar c) cs i \<and> (\<forall>j<i. \<not> yearTokenAt (isWordChar c) cs j)
        \<and> y = take 4 (drop i cs))" (is "?L \<longleftrightarrow> ?R")
    proof
      assume ?L
      then obtain i where i: "yearTokenAt b (c # cs) i" "\<forall>j<i. \<not> yearTokenAt b (c # cs) j"
        "y = take 4 (drop i (c # cs))"
        by blast
      with False obtain n where n: "i = Suc n"
        by (cases i) auto
      have "\<forall>j<n. \<not> yearTokenAt (isWordChar c) cs j"
      proof (intro allI impI)
        fix j assume "j < n"
        then have "Suc j < i" using n by simp
        with i(2) have "\<not> yearTokenAt b (c # cs) (Suc j)" by blast
        then show "\<not> yearTokenAt (isWordChar c) cs j"
          by (simp add: yearTokenAt_Suc)
      qed
      with i n show ?R
        by (intro exI [of _ n]) (simp add: yearTokenAt_Suc)
    next
      assume ?R
      then obtain n where n: "yearTokenAt (isWordChar c) cs n"
        "\<forall>j<n. \<not> yearTokenAt (isWordChar c) cs j" "y = take 4 (drop n cs)"
        by blast
      have "\<forall>j<Suc n. \<not> yearTokenAt b (c # cs) j"
      proof (intro allI impI)
        fix j assume j: "j < Suc n"
        show "\<not> yearTokenAt b (c # cs) j"
        proof (cases j)
          case 0
          with False show ?thesis by simp
        next
          case (Suc k)
          with j n(2) show ?thesis
            by (simp add: yearTokenAt_Suc)
        qed
      qed
      with n show ?L
        by (intro exI [of _ "Suc n"]) (simp add: yearTokenAt_Suc)
    qed
    with s Cons.IH [of "isWordChar c"] show ?thesis by simp
  qed
qed

lemma yearTokenSearch_None:
  "yearTokenSearch b s = None \<longleftrightarrow> (\<forall>i. \<not> yearTokenAt b s i)"
proof (induction s arbitrary: b)
  case Nil
  show ?case by (simp add: yearTokenAt_def)
next
  case (Cons c cs)
  have "(\<forall>i. \<not> yearTokenAt b (c # cs) i)
      \<longleftrightarrow> \<not> yearTokenAt b (c # cs) 0 \<and> (\<forall>i. \<not> yearTokenAt (isWordChar c) cs i)"
    by (metis yearTokenAt_Suc not0_implies_Suc)
  with Cons.IH [of "isWordChar c"] show ?case
    using yearTokenAt_0 [of b c cs] by auto
qed


lemma isYearToken_digits: "isYearToken y \<Longrightarrow> list_all isDigit y"
proof -
  assume y: "isYearToken y"
  then have "length y = 4" by (rule isYearToken_length)
  then obtain a b c d where abcd: "y = [a, b, c, d]"
    by (auto simp: length_Suc_conv numeral_eq_Suc)
  with y show ?thesis
    by (auto simp: isYearToken_def isDigit_def)
qed

lemma isDigit_not_space: "isDigit c \<Longrightarrow> \<not> isSpace c"
  by (auto simp: isDigit_def isSpace_def)

lemma digitsVal_snoc: "digitsVal (ds @ [c]) = 10 * digitsVal ds + digitVal c"
  by (simp add: digitsVal_def)

lemma digitVal_le_9: "isDigit c \<Longrightarrow> digitVal c \<le> 9"
  by (auto simp: isDigit_def digitVal_def)

lemma digitsVal_bound: "list_all isDigit ds \<Longrightarrow> digitsVal ds < 10 ^ length ds"
proof (induction ds rule: rev_induct)
  case Nil
  show ?case by (simp add: digitsVal_def)
next
  case (snoc c ds)
  then have "digitsVal ds < 10 ^ length ds" and "digitVal c \<le> 9"
    by (simp_all add: digitVal_le_9)
  then have "10 * digitsVal ds + digitVal c < 10 * 10 ^ length ds"
    by linarith
  then show ?case
    by (simp add: digitsVal_snoc)
qed

lemma not_overflows_small: "n < 10000 \<Longrightarrow> \<not> overflows (of_int (int n))"
proof -
  assume "n < 10000"
  then have "rat_of_nat n < 10000"
    by (metis of_nat_less_iff of_nat_numeral)
  then show ?thesis
    by (simp add: overflows_def)
qed

lemma parseInt_digits:
  assumes "ds \<noteq> []" and "list_all isDigit ds"
    and "\<not> overflows (of_int (int (digitsVal ds)))"
  shows "parseInt ds = Some (Fin (int (digitsVal ds)))"
proof -
  from assms obtain c cs where ds: "ds = c # cs" and c: "isDigit c"
    by (cases ds) auto
  from c have ns: "\<not> isSpace c" by (rule isDigit_not_space)
  from c have sg: "c \<noteq> CHR ''-''" "c \<noteq> CHR ''+''"
    by (auto simp: isDigit_def)
  from assms(2) have tw: "takeWhile isDigit ds = ds"
    by (simp add: list_all_iff)
  show ?thesis
    using tw ns sg assms(3) unfolding ds by (simp add: parseInt_def Let_def)
qed

lemma parseInt_yearToken:
  "isYearToken y \<Longrightarrow> finiteOrNull (parseInt y) = Some (int (digitsVal y))"
proof -
  assume y: "isYearToken y"
  then have d: "list_all isDigit y" and l: "length y = 4"
    by (rule isYearToken_digits, rule isYearToken_length)
  from d have "digitsVal y < 10 ^ length y"
    by (rule digitsVal_bound)
  with l have "digitsVal y < 10000"
    by simp
  then have "\<not> overflows (of_int (int (digitsVal y)))"
    by (rule not_overflows_small)
  with d l have "parseInt y = Some (Fin (int (digitsVal y)))"
    by (intro parseInt_digits) auto
  then show ?thesis
    by (simp add: finiteOrNull_def)
qed

lemma yearTokenSearch_token: "yearTokenSearch b s = Some y \<Longrightarrow> isYearToken y"
  by (auto simp: yearTokenSearch_Some yearTokenAt_def)

lemma yearFromCountDateString_eq:
  "yearFromCountDateString d =
     map_option (\<lambda>y. int (digitsVal y)) (yearTokenSearch False (cleanText d))"
proof (cases "yearTokenSearch False (cleanText d)")
  case None
  then show ?thesis
    by (simp add: yearFromCountDateString_def Let_def)
next
  case (Some y)
  then have "isYearToken y" by (rule yearTokenSearch_token)
  then have "finiteOrNull (parseInt y) = Some (int (digitsVal y))" by (rule parseInt_yearToken)
  moreover from Some have "cleanText d \<noteq> []" by auto
  ultimately show ?thesis
    using Some by (simp add: yearFromCountDateString_def Let_def)
qed

lemma yearFromCountDateString_first_token:
  "yearFromCountDateString d = Some n \<longleftrightarrow>
     (\<exists>i. yearTokenAt False (cleanText d) i \<and> (\<forall>j<i. \<not> yearTokenAt False (cleanText d) j)
        \<and> n = int (digitsVal (take 4 (drop i (cleanText d)))))"
  unfolding yearFromCountDateString_eq map_option_eq_Some yearTokenSearch_Some by blast

lemma yearFromCountDateString_no_token:
  "yearFromCountDateString d = None \<longleftrightarrow> (\<forall>i. \<not> yearTokenAt False (cleanText d) i)"
  unfolding yearFromCountDateString_eq by (simp add: yearTokenSearch_None)

text \<open>
  Claim C2. For every participation/effort record \<open>r\<close> of an extraction result, the year
  that \<open>parseUploadedFile\<close> gives it is: the \<open>Year\<close> of the metadata record with the index
  of \<open>r\<close>, if there is one (there is at most one, the indices of the metadata list being
  distinct); otherwise the year read in the date string of \<open>r\<close>, if \<open>r\<close> has a date and a
  year is found in it; otherwise the \<open>Year\<close> that \<open>r\<close> already has. The year read in a date
  string is the number of the first year token of the cleaned string, a year token being
  four characters \<open>19dd\<close> or \<open>20dd\<close> standing as a word; with no such token there is none.
\<close>

theorem year_resolution_priority:
  "(parseHistoricalResultsByCountCsv t = Inr res \<and> r \<in> set (participantsEffort res) \<longrightarrow>
      resolveYear (meta res) r =
        (case find (\<lambda>m. m_CountIndex m = pe_CountIndex r) (meta res) of
           Some m \<Rightarrow> Some (m_Year m)
         | None \<Rightarrow>
             (case (if truthy (pe_CountDate r) then yearFromCountDateString (str (pe_CountDate r))
                    else None) of
                Some y \<Rightarrow> Some y
              | None \<Rightarrow> pe_Year r))
      \<and> distinct (map m_CountIndex (meta res)))
   \<and> resolveYears res = map (\<lambda>r. r\<lparr>pe_Year := resolveYear (meta res) r\<rparr>) (participantsEffort res)
   \<and> (yearFromCountDateString d = Some n \<longleftrightarrow>
        (\<exists>i. yearTokenAt False (cleanText d) i \<and> (\<forall>j<i. \<not> yearTokenAt False (cleanText d) j)
           \<and> n = int (digitsVal (take 4 (drop i (cleanText d))))))
   \<and> (yearFromCountDateString d = None \<longleftrightarrow> (\<forall>i. \<not> yearTokenAt False (cleanText d) i))"
proof (intro conjI impI)
  assume a: "parseHistoricalResultsByCountCsv t = Inr res \<and> r \<in> set (participantsEffort res)"
  then obtain rs where res: "res = extractTables rs"
    by (auto simp: parseHistoricalResultsByCountCsv_def split: sum.splits)
  show d: "distinct (map m_CountIndex (meta res))"
    unfolding res by (rule distinct_meta_extractTables)
  show "resolveYear (meta res) r =
        (case find (\<lambda>m. m_CountIndex m = pe_CountIndex r) (meta res) of
           Some m \<Rightarrow> Some (m_Year m)
         | None \<Rightarrow>
             (case (if truthy (pe_CountDate r) then yearFromCountDateString (str (pe_CountDate r))
                    else None) of
                Some y \<Rightarrow> Some y
              | None \<Rightarrow> pe_Year r))"
    using d by (simp add: resolveYear_def Let_def metaYearByIdx_find split: option.splits)
next
  show "resolveYears res = map (\<lambda>r. r\<lparr>pe_Year := resolveYear (meta res) r\<rparr>) (participantsEffort res)"
    by (simp add: resolveYears_def)
  show "yearFromCountDateString d = Some n \<longleftrightarrow>
        (\<exists>i. yearTokenAt False (cleanText d) i \<and> (\<forall>j<i. \<not> yearTokenAt False (cleanText d) j)
           \<and> n = int (digitsVal (take 4 (drop i (cleanText d)))))"
    by (rule yearFromCountDateString_first_token)
  show "yearFromCountDateString d = None \<longleftrightarrow> (\<forall>i. \<not> yearTokenAt False (cleanText d) i)"
    by (rule yearFromCountDateString_no_token)
qed

theorem year_resolution_priority_witness:
  "parseHistoricalResultsByCountCsv
      ''CountYear5\<newline>1,12/27/1998\<newline>4,on 12/20/2004\<newline>5,x2005\<newline>COM_NAME,CountYear\<newline>Robin,1999 [1]''
     = Inr (extractTables [[''CountYear5''], [''1'', ''12/27/1998''], [''4'', ''on 12/20/2004''],
         [''5'', ''x2005''], [''COM_NAME'', ''CountYear''], [''Robin'', ''1999 [1]'']])
   \<and> map pe_CountIndex (participantsEffort (extractTables [[''CountYear5''], [''1'', ''12/27/1998''],
         [''4'', ''on 12/20/2004''], [''5'', ''x2005''], [''COM_NAME'', ''CountYear''],
         [''Robin'', ''1999 [1]'']])) = [1, 4, 5]
   \<and> map pe_Year (resolveYears (extractTables [[''CountYear5''], [''1'', ''12/27/1998''],
         [''4'', ''on 12/20/2004''], [''5'', ''x2005''], [''COM_NAME'', ''CountYear''],
         [''Robin'', ''1999 [1]'']])) = [Some 1999, Some 2004, None]
   \<and> distinct (map m_CountIndex (meta (extractTables [[''CountYear5''], [''1'', ''12/27/1998''],
         [''4'', ''on 12/20/2004''], [''5'', ''x2005''], [''COM_NAME'', ''CountYear''],
         [''Robin'', ''1999 [1]'']])))"
proof -
  let ?t = "''CountYear5\<newline>1,12/27/1998\<newline>4,on 12/20/2004\<newline>5,x2005\<newline>COM_NAME,CountYear\<newline>Robin,1999 [1]''"
  let ?g = "[[''CountYear5''], [''1'', ''12/27/1998''], [''4'', ''on 12/20/2004''],
         [''5'', ''x2005''], [''COM_NAME'', ''CountYear''], [''Robin'', ''1999 [1]'']]"
  let ?r = "\<lparr>pe_CountIndex = 1, pe_CountDate = Some ''12/27/1998'', pe_Year = None,
      pe_NumParticipants = None, pe_NumHours = None, pe_NumSpeciesReported = None\<rparr>"
  have h: "parseHistoricalResultsByCountCsv ?t = Inr (extractTables ?g)"
    by (simp add: parseHistoricalResultsByCountCsv_def lex_eval)
  have i: "map pe_CountIndex (participantsEffort (extractTables ?g)) = [1, 4, 5]"
    by code_simp
  have y: "map pe_Year (resolveYears (extractTables ?g)) = [Some 1999, Some 2004, None]"
    by code_simp
  have r: "?r \<in> set (participantsEffort (extractTables ?g))"
    by code_simp
  show ?thesis
    using h i y r year_resolution_priority [of ?t "extractTables ?g" ?r] by simp
qed

subsection \<open>The composite header\<close>

lemma splitStr_not_Nil: "splitStr sep s \<noteq> []"
  by (induction s) (auto split: list.splits)

lemma hd_splitStr: "hd (splitStr sep s) = takeWhile (\<lambda>c. c \<noteq> sep) s"
  using splitStr_not_Nil by (induction s) (auto split: list.splits)

lemma takeWhile_replaceCRLF:
  "takeWhile (\<lambda>x. x \<noteq> LF \<and> x \<noteq> CR) (replaceCRLF s) = takeWhile (\<lambda>x. x \<noteq> LF \<and> x \<noteq> CR) s"
  by (induction s rule: replaceCRLF.induct) auto

lemma takeWhile_replaceCR:
  "takeWhile (\<lambda>x. x \<noteq> LF) (replaceCR s) = takeWhile (\<lambda>x. x \<noteq> LF \<and> x \<noteq> CR) s"
  by (induction s) (auto simp: replaceCR_def)

lemma firstLine_eq: "hd (splitStr LF (normalizeNewlines c)) = firstLine c"
  by (simp add: hd_splitStr normalizeNewlines_def takeWhile_replaceCR takeWhile_replaceCRLF
      firstLine_def)

lemma digitVal_digits:
  "digitVal (CHR ''0'') = 0" "digitVal (CHR ''1'') = 1" "digitVal (CHR ''2'') = 2"
  "digitVal (CHR ''3'') = 3" "digitVal (CHR ''4'') = 4" "digitVal (CHR ''5'') = 5"
  "digitVal (CHR ''6'') = 6" "digitVal (CHR ''7'') = 7" "digitVal (CHR ''8'') = 8"
  "digitVal (CHR ''9'') = 9"
  by (simp_all add: digitVal_def)

lemma isDigit_cases:
  "isDigit c \<longleftrightarrow> c = CHR ''0'' \<or> c = CHR ''1'' \<or> c = CHR ''2'' \<or> c = CHR ''3'' \<or> c = CHR ''4''
     \<or> c = CHR ''5'' \<or> c = CHR ''6'' \<or> c = CHR ''7'' \<or> c = CHR ''8'' \<or> c = CHR ''9''"
  by (auto simp: isDigit_def)

lemma digitVal_le: "isDigit c \<Longrightarrow> digitVal c \<le> 9"
  by (auto simp: isDigit_cases digitVal_digits)

lemma digitVal_1: "isDigit c \<Longrightarrow> digitVal c = 1 \<longleftrightarrow> c = CHR ''1''"
  by (auto simp: isDigit_cases digitVal_digits)

lemma digitVal_2: "isDigit c \<Longrightarrow> digitVal c = 2 \<longleftrightarrow> c = CHR ''2''"
  by (auto simp: isDigit_cases digitVal_digits)

lemma digitVal_9: "isDigit c \<Longrightarrow> digitVal c = 9 \<longleftrightarrow> c = CHR ''9''"
  by (auto simp: isDigit_cases digitVal_digits)

lemma digitVal_0: "isDigit c \<Longrightarrow> digitVal c = 0 \<longleftrightarrow> c = CHR ''0''"
  by (auto simp: isDigit_cases digitVal_digits)

lemma year_range_digits:
  fixes a b c d :: nat
  assumes "a \<le> 9" "b \<le> 9" "c \<le> 9" "d \<le> 9"
  shows "1900 \<le> 1000 * a + 100 * b + 10 * c + d \<and> 1000 * a + 100 * b + 10 * c + d \<le> 2099
     \<longleftrightarrow> (a = 1 \<and> b = 9) \<or> (a = 2 \<and> b = 0)" (is "?L \<longleftrightarrow> ?R")
proof
  assume r: ?L
  have "a \<noteq> 0" using r assms by linarith
  moreover have "a < 3" using r by linarith
  ultimately consider "a = 1" | "a = 2" by linarith
  then show ?R
  proof cases
    case 1
    then have "\<not> b \<le> 8" using r assms by linarith
    with assms 1 show ?thesis by linarith
  next
    case 2
    then have "b < 1" using r by linarith
    with 2 show ?thesis by simp
  qed
next
  assume ?R
  with assms show ?L by linarith
qed

lemma isYearToken_range:
  "isYearToken y \<longleftrightarrow>
     length y = 4 \<and> list_all isDigit y \<and> 1900 \<le> digitsVal y \<and> digitsVal y \<le> 2099"
proof (cases "length y = 4")
  case False
  then show ?thesis by (simp add: isYearToken_def)
next
  case True
  then obtain a b c d where y: "y = [a, b, c, d]"
    by (auto simp: length_Suc_conv numeral_eq_Suc)
  have v: "digitsVal y = 1000 * digitVal a + 100 * digitVal b + 10 * digitVal c + digitVal d"
    by (simp add: y digitsVal_def)
  show ?thesis
  proof (cases "list_all isDigit y")
    case False
    then show ?thesis
      unfolding y by (auto simp: isYearToken_def isDigit_def)
  next
    case True
    then have dg: "isDigit a" "isDigit b" "isDigit c" "isDigit d"
      by (simp_all add: y)
    have "(1900 \<le> digitsVal y \<and> digitsVal y \<le> 2099)
        \<longleftrightarrow> (digitVal a = 1 \<and> digitVal b = 9) \<or> (digitVal a = 2 \<and> digitVal b = 0)"
      unfolding v using dg by (intro year_range_digits digitVal_le)
    also have "\<dots> \<longleftrightarrow> (a = CHR ''1'' \<and> b = CHR ''9'') \<or> (a = CHR ''2'' \<and> b = CHR ''0'')"
      using dg by (simp only: digitVal_1 digitVal_2 digitVal_9 digitVal_0)
    finally show ?thesis
      using dg by (auto simp: y isYearToken_def)
  qed
qed

lemma lit_Some: "lit p s = Some r \<longleftrightarrow> s = p @ r"
proof
  assume "lit p s = Some r"
  then have "take (length p) s = p" and "r = drop (length p) s"
    by (auto simp: lit_def startsWith_def split: if_splits)
  then show "s = p @ r"
    by (metis append_take_drop_id)
next
  assume "s = p @ r"
  then show "lit p s = Some r"
    by (simp add: lit_def startsWith_def)
qed

lemma lit_None: "lit p s = None \<longleftrightarrow> (\<forall>r. s \<noteq> p @ r)"
  using lit_Some [of p s] by (metis not_Some_eq)

lemma startsWith_iff: "startsWith s p \<longleftrightarrow> (\<exists>r. s = p @ r)"
proof
  assume "startsWith s p"
  then have "s = p @ drop (length p) s"
    by (metis append_take_drop_id startsWith_def)
  then show "\<exists>r. s = p @ r" ..
next
  assume "\<exists>r. s = p @ r"
  then show "startsWith s p"
    by (auto simp: startsWith_def)
qed


lemma not_space_bracket: "\<not> isSpace (CHR ''['')"
  by (simp add: isSpace_def)

lemma not_digit_bracket: "\<not> isDigit (CHR '']'')"
  by (simp add: isDigit_def)

lemma dropWhile_all: "list_all P xs \<Longrightarrow> \<not> P y \<Longrightarrow> dropWhile P (xs @ y # ys) = y # ys"
  by (induction xs) auto

lemma takeWhile_all: "list_all P xs \<Longrightarrow> \<not> P y \<Longrightarrow> takeWhile P (xs @ y # ys) = xs"
  by (induction xs) auto

lemma matchYearIndex_Some:
  assumes "matchYearIndex head = Some (y, ds)"
  shows "yearIndexPrefix head"
proof -
  define s1 where "s1 = dropWhile isSpace head"
  define s2 where "s2 = dropWhile isSpace (drop 4 s1)"
  from assms have tok: "isYearToken (take 4 s1)" and y: "y = take 4 s1"
    by (auto simp: matchYearIndex_def Let_def s1_def split: if_splits option.splits)
  from assms tok obtain s3 where s3: "lit ''['' s2 = Some s3"
    by (auto simp: matchYearIndex_def Let_def s1_def s2_def split: option.splits)
  with assms tok have ds: "ds = takeWhile isDigit s3" "ds \<noteq> []"
    and br: "startsWith (dropWhile isDigit s3) '']''"
    by (auto simp: matchYearIndex_def Let_def s1_def s2_def split: if_splits)
  from br obtain rest where rest: "dropWhile isDigit s3 = '']'' @ rest"
    by (auto simp: startsWith_iff)
  have "head = takeWhile isSpace head @ s1"
    by (simp add: s1_def)
  also have "s1 = y @ drop 4 s1"
    by (simp add: y)
  also have "drop 4 s1 = takeWhile isSpace (drop 4 s1) @ s2"
    by (simp add: s2_def)
  also from s3 have "s2 = ''['' @ s3"
    by (simp add: lit_Some)
  also have "s3 = ds @ '']'' @ rest"
    using rest ds(1) by (metis takeWhile_dropWhile_id)
  finally have "head = takeWhile isSpace head @ y @ takeWhile isSpace (drop 4 s1) @ ''['' @ ds @ '']'' @ rest" .
  moreover have "list_all isSpace (takeWhile isSpace head)"
    and "list_all isSpace (takeWhile isSpace (drop 4 s1))" and "list_all isDigit ds"
    by (auto simp: list_all_iff ds(1) dest: set_takeWhileD)
  moreover from tok have "length y = 4 \<and> list_all isDigit y \<and> 1900 \<le> digitsVal y \<and> digitsVal y \<le> 2099"
    by (simp add: y isYearToken_range)
  ultimately show ?thesis
    unfolding yearIndexPrefix_def using ds(2) by blast
qed

lemma matchYearIndex_complete:
  assumes "yearIndexPrefix head"
  shows "\<exists>y ds. matchYearIndex head = Some (y, ds)"
proof -
  from assms obtain ws1 y ws2 ds rest where
    head: "head = ws1 @ y @ ws2 @ ''['' @ ds @ '']'' @ rest"
    and ws1: "list_all isSpace ws1" and ws2: "list_all isSpace ws2"
    and y: "length y = 4" "list_all isDigit y" "1900 \<le> digitsVal y" "digitsVal y \<le> 2099"
    and ds: "ds \<noteq> []" "list_all isDigit ds"
    unfolding yearIndexPrefix_def by blast
  from y have tok: "isYearToken y"
    by (simp add: isYearToken_range)
  from y obtain a ys where ay: "y = a # ys" and a: "\<not> isSpace a"
    by (cases y) (auto dest: isDigit_not_space)
  have s1: "dropWhile isSpace head = y @ ws2 @ ''['' @ ds @ '']'' @ rest"
    unfolding head ay using dropWhile_all [OF ws1 a] by simp
  have t4: "take 4 (dropWhile isSpace head) = y"
    and d4: "drop 4 (dropWhile isSpace head) = ws2 @ ''['' @ ds @ '']'' @ rest"
    using y(1) by (simp_all add: s1)
  have s2: "dropWhile isSpace (drop 4 (dropWhile isSpace head)) = ''['' @ ds @ '']'' @ rest"
    unfolding d4 using dropWhile_all [OF ws2 not_space_bracket] by simp
  have l: "lit ''['' (''['' @ ds @ '']'' @ rest) = Some (ds @ '']'' @ rest)"
    by (simp add: lit_Some)
  have tw: "takeWhile isDigit (ds @ CHR '']'' # rest) = ds"
    and dw: "dropWhile isDigit (ds @ CHR '']'' # rest) = CHR '']'' # rest"
    using ds(2) not_digit_bracket by (rule takeWhile_all, rule dropWhile_all)
  have "matchYearIndex head = Some (y, ds)"
    unfolding matchYearIndex_def Let_def t4 s2 l using tok ds(1)
    by (simp add: tw dw startsWith_iff)
  then show ?thesis by blast
qed

lemma parseYearHeaderCell_None:
  "parseYearHeaderCell c = None \<longleftrightarrow> \<not> yearIndexPrefix (firstLine c)"
proof -
  have "parseYearHeaderCell c = None \<longleftrightarrow> matchYearIndex (firstLine c) = None"
    by (simp add: parseYearHeaderCell_def Let_def firstLine_eq split: option.splits)
  also have "\<dots> \<longleftrightarrow> \<not> yearIndexPrefix (firstLine c)"
    using matchYearIndex_Some [of "firstLine c"] matchYearIndex_complete [of "firstLine c"]
    by (cases "matchYearIndex (firstLine c)") auto
  finally show ?thesis .
qed

text \<open>
  Claim C4, as the code has it. The header cell \<open>1987[3]\<close> followed by the lines
  \<open>Count Date: 12/27/1987\<close>, \<open># Participants: 42\<close>, \<open># Species Reported: 87\<close> and
  \<open>Total Hrs.: 6.5\<close> parses to the year 1987, the index 3, the date \<open>12/27/1987\<close>, 42
  participants, 87 species and 6.5 hours. A cell has no match exactly when its first line
  does not start, after optional white space, with a four-digit year from 1900 to 2099
  followed, after optional white space, by an index of one or more digits in square
  brackets.
\<close>

theorem composite_header_parse:
  "parseYearHeaderCell
      ''1987[3]\<newline>Count Date: 12/27/1987\<newline># Participants: 42\<newline># Species Reported: 87\<newline>Total Hrs.: 6.5''
     = Some \<lparr>yh_Year = Some 1987, yh_CountIndex = Some 3, yh_CountDate = Some ''12/27/1987'',
              yh_NumParticipants = Some (Fin 42), yh_NumSpeciesReported = Some (Fin 87),
              yh_TotalHrs = Some (Fin (13 / 2))\<rparr>
   \<and> (parseYearHeaderCell c = None \<longleftrightarrow> \<not> yearIndexPrefix (firstLine c))"
proof
  show "parseYearHeaderCell
      ''1987[3]\<newline>Count Date: 12/27/1987\<newline># Participants: 42\<newline># Species Reported: 87\<newline>Total Hrs.: 6.5''
     = Some \<lparr>yh_Year = Some 1987, yh_CountIndex = Some 3, yh_CountDate = Some ''12/27/1987'',
              yh_NumParticipants = Some (Fin 42), yh_NumSpeciesReported = Some (Fin 87),
              yh_TotalHrs = Some (Fin (13 / 2))\<rparr>"
    by code_simp
  show "parseYearHeaderCell c = None \<longleftrightarrow> \<not> yearIndexPrefix (firstLine c)"
    by (rule parseYearHeaderCell_None)
qed

theorem composite_header_parse_witness:
  "parseYearHeaderCell ''Total\<newline>1987[3]'' = None \<and> \<not> yearIndexPrefix (firstLine ''Total\<newline>1987[3]'')"
proof -
  have n: "parseYearHeaderCell ''Total\<newline>1987[3]'' = None"
    by code_simp
  show ?thesis
    using n composite_header_parse [of "''Total\<newline>1987[3]''"] by simp
qed

text \<open>
  Claim C4 as the specification words it has no match for every cell whose first line
  does not start with the year. The first line of the cell \<open>" 1987[3]"\<close> starts with a
  space, not with a digit, and the cell parses to the year 1987 and the index 3.
\<close>

theorem header_leading_space_counterexample:
  "firstLine '' 1987[3]'' = '' 1987[3]''
   \<and> \<not> isDigit (hd '' 1987[3]'')
   \<and> parseYearHeaderCell '' 1987[3]''
       = Some \<lparr>yh_Year = Some 1987, yh_CountIndex = Some 3, yh_CountDate = None,
                yh_NumParticipants = None, yh_NumSpeciesReported = None, yh_TotalHrs = None\<rparr>"
proof (intro conjI)
  show "firstLine '' 1987[3]'' = '' 1987[3]''"
    by (simp add: firstLine_def LF_def CR_def)
  show "\<not> isDigit (hd '' 1987[3]'')"
    by (simp add: isDigit_def)
  show "parseYearHeaderCell '' 1987[3]''
       = Some \<lparr>yh_Year = Some 1987, yh_CountIndex = Some 3, yh_CountDate = None,
                yh_NumParticipants = None, yh_NumSpeciesReported = None, yh_TotalHrs = None\<rparr>"
    by code_simp
qed

subsection \<open>Where a section ends\<close>

lemma weatherRows_takeWhile:
  "weatherRows ds =
     List.map_filter (\<lambda>d. map_option (\<lambda>i. weatherOf i d) (rowIndex d)) (takeWhile dataRow ds)"
  by (induction ds) (simp_all add: dataRow_def rowIndex_def map_filter_simps split: option.splits)

lemma effortRows_takeWhile:
  "effortRows ds =
     List.map_filter (\<lambda>d. map_option (\<lambda>i. effortOf i d) (rowIndex d)) (takeWhile dataRow ds)"
  by (induction ds) (simp_all add: dataRow_def rowIndex_def map_filter_simps split: option.splits)

lemma scanWeather_first:
  "\<forall>p \<in> set pre. \<not> isWeatherSentinel p \<Longrightarrow> isWeatherSentinel r \<Longrightarrow>
     scanWeather (pre @ r # ds) = weatherRows ds"
  by (simp add: scanWeather_def dropWhile_first)

lemma scanEffort_first:
  "\<forall>p \<in> set pre. \<not> isEffortSentinel p \<Longrightarrow> isEffortSentinel r \<Longrightarrow>
     scanEffort (pre @ r # ds) = effortRows ds"
  by (simp add: scanEffort_def dropWhile_first)

lemma blank_line_no_row:
  assumes "\<not> inQuotes st" and "list_all blankField (row st @ [field st])"
    and "length (rows st) \<le> maxRows"
  shows "lexLoop maxRows maxCols st (LF # cs) = lexLoop maxRows maxCols (st\<lparr>field := [], row := []\<rparr>) cs"
proof -
  have "LF \<noteq> dquote" "LF \<noteq> comma"
    by (simp_all add: LF_def dquote_def comma_def)
  moreover have "popBlank (row st @ [field st]) = []"
    using assms(2) by (simp add: popBlank_Nil)
  ultimately show ?thesis
    using assms(1,3) by (simp add: pushRow_def pushField_def Let_def)
qed

lemma two_line_feeds:
  assumes "\<not> inQuotes st"
  shows "lexLoop maxRows maxCols st (LF # LF # b) = lexLoop maxRows maxCols st (LF # b)"
proof -
  have ne: "LF \<noteq> dquote" "LF \<noteq> comma"
    by (simp_all add: LF_def dquote_def comma_def)
  let ?st = "pushRow (pushField st)"
  show ?thesis
  proof (cases "maxRows < length (rows ?st)")
    case True
    with assms ne show ?thesis
      by (simp add: Let_def)
  next
    case False
    have q: "\<not> inQuotes ?st"
      using assms by (simp add: pushRow_def pushField_def Let_def)
    have b: "list_all blankField (row ?st @ [field ?st])"
      by (simp add: pushRow_def pushField_def Let_def blankField_def trim_def)
    have e: "?st\<lparr>field := [], row := []\<rparr> = ?st"
      by (simp add: pushRow_def pushField_def Let_def)
    have "lexLoop maxRows maxCols ?st (LF # b) = lexLoop maxRows maxCols ?st b"
      using blank_line_no_row [OF q b, of maxRows maxCols b] False by (simp only: e not_less)
    moreover have "lexLoop maxRows maxCols st (LF # LF # b) = lexLoop maxRows maxCols ?st (LF # b)"
      using assms ne False by (simp add: Let_def)
    moreover have "lexLoop maxRows maxCols st (LF # b) = lexLoop maxRows maxCols ?st b"
      using assms ne False by (simp add: Let_def)
    ultimately show ?thesis
      by simp
  qed
qed

lemma hd_append_LF: "hd (cs @ LF # b) = dquote \<longleftrightarrow> cs \<noteq> [] \<and> hd cs = dquote"
  by (cases cs) (simp_all add: LF_def dquote_def)

lemma tl_append_LF: "cs \<noteq> [] \<Longrightarrow> tl (cs @ LF # b) = tl cs @ LF # b"
  by (cases cs) simp_all

lemma lexLoop_blank_line:
  assumes "inQuotes st = q" and "\<not> quoteAfter q a"
  shows "lexLoop maxRows maxCols st (a @ LF # LF # b) = lexLoop maxRows maxCols st (a @ LF # b)"
  using assms
proof (induction q a arbitrary: st rule: quoteAfter.induct)
  case (1 q)
  then have "\<not> inQuotes st"
    by simp
  then show ?case
    unfolding append_Nil by (rule two_line_feeds)
next
  case (2 q ch cs)
  show ?case
  proof (cases q)
    case True
    show ?thesis
    proof (cases "ch = dquote")
      case d: True
      show ?thesis
      proof (cases "cs \<noteq> [] \<and> hd cs = dquote")
        case dd: True
        have "lexLoop maxRows maxCols (st\<lparr>field := field st @ [dquote]\<rparr>) (tl cs @ LF # LF # b)
            = lexLoop maxRows maxCols (st\<lparr>field := field st @ [dquote]\<rparr>) (tl cs @ LF # b)"
          using "2.IH"(1) [OF True d dd, of "st\<lparr>field := field st @ [dquote]\<rparr>"] "2.prems" True d dd
          by simp
        with "2.prems" True d dd show ?thesis
          by (simp add: hd_append_LF tl_append_LF)
      next
        case nd: False
        have "lexLoop maxRows maxCols (st\<lparr>inQuotes := False\<rparr>) (cs @ LF # LF # b)
            = lexLoop maxRows maxCols (st\<lparr>inQuotes := False\<rparr>) (cs @ LF # b)"
          using "2.IH"(2) [OF True d nd, of "st\<lparr>inQuotes := False\<rparr>"] "2.prems" True d nd
          by simp
        with "2.prems" True d nd show ?thesis
          by (auto simp: hd_append_LF)
      qed
    next
      case nq: False
      have "lexLoop maxRows maxCols (st\<lparr>field := field st @ [ch]\<rparr>) (cs @ LF # LF # b)
          = lexLoop maxRows maxCols (st\<lparr>field := field st @ [ch]\<rparr>) (cs @ LF # b)"
        using "2.IH"(3) [OF True nq, of "st\<lparr>field := field st @ [ch]\<rparr>"] "2.prems" True nq
        by simp
      with "2.prems" True nq show ?thesis
        by simp
    qed
  next
    case False
    show ?thesis
    proof (cases "ch = dquote")
      case d: True
      have "lexLoop maxRows maxCols (st\<lparr>inQuotes := True\<rparr>) (cs @ LF # LF # b)
          = lexLoop maxRows maxCols (st\<lparr>inQuotes := True\<rparr>) (cs @ LF # b)"
        using "2.IH"(4) [OF False d, of "st\<lparr>inQuotes := True\<rparr>"] "2.prems" False d
        by simp
      with "2.prems" False d show ?thesis
        by simp
    next
      case nd: False
      note IH = "2.IH"(5) [OF False nd]
      from "2.prems" False nd have qa: "\<not> quoteAfter False cs"
        by simp
      from "2.prems" False have nq: "\<not> inQuotes st"
        by simp
      show ?thesis
      proof (cases "ch = comma")
        case c: True
        have "lexLoop maxRows maxCols (pushField st) (cs @ LF # LF # b)
            = lexLoop maxRows maxCols (pushField st) (cs @ LF # b)"
          using IH [of "pushField st"] qa nq by (simp add: pushField_def)
        with nq nd c show ?thesis
          by (simp add: Let_def)
      next
        case nc: False
        show ?thesis
        proof (cases "ch = LF")
          case l: True
          have "lexLoop maxRows maxCols (pushRow (pushField st)) (cs @ LF # LF # b)
              = lexLoop maxRows maxCols (pushRow (pushField st)) (cs @ LF # b)"
            using IH [of "pushRow (pushField st)"] qa nq
            by (simp add: pushField_def pushRow_def Let_def)
          with nq nd nc l show ?thesis
            by (simp add: Let_def)
        next
          case nl: False
          have "lexLoop maxRows maxCols (st\<lparr>field := field st @ [ch]\<rparr>) (cs @ LF # LF # b)
              = lexLoop maxRows maxCols (st\<lparr>field := field st @ [ch]\<rparr>) (cs @ LF # b)"
            using IH [of "st\<lparr>field := field st @ [ch]\<rparr>"] qa nq by simp
          with nq nd nc nl show ?thesis
            by simp
        qed
      qed
    qed
  qed
qed

lemma parseCsvText_blank_line:
  assumes "normalizeNewlines t = a @ LF # LF # b" and "\<not> quoteAfter False a"
  shows "parseCsvText maxRows maxCols t = parseCsvText maxRows maxCols (a @ LF # b)"
proof -
  have "CR \<notin> set (a @ LF # LF # b)"
    using normalizeNewlines_no_CR [of t] assms(1) by simp
  then have "CR \<notin> set (a @ LF # b)"
    by simp
  then have n: "normalizeNewlines (a @ LF # b) = a @ LF # b"
    by (rule normalizeNewlines_id)
  have "lexLoop maxRows maxCols lexer_init (a @ LF # LF # b)
      = lexLoop maxRows maxCols lexer_init (a @ LF # b)"
    using lexLoop_blank_line [of lexer_init False a maxRows maxCols b] assms(2)
    by (simp add: lexer_init_def)
  then show ?thesis
    unfolding parseCsvText_def n assms(1) by simp
qed

lemma parse_blank_line:
  assumes "normalizeNewlines t = a @ LF # LF # b" and "\<not> quoteAfter False a"
  shows "parseHistoricalResultsByCountCsv t = parseHistoricalResultsByCountCsv (a @ LF # b)"
  unfolding parseHistoricalResultsByCountCsv_def parseCsvText_blank_line [OF assms] ..

text \<open>
  Claim C3, as the code has it. On every row grid the weather loop and the effort loop
  take the rows after the sentinel up to the first row that is empty or whose first
  cell is not numeric-looking, and emit a record for each of them whose index is neither
  \<open>null\<close> nor zero; the section starts after the first sentinel row of the grid. A blank
  line of the input does not end a section: the grid that the lexer returns has no empty
  row, a line of blank fields only, met outside quotes, adds no row, and a text with two
  line ends in a row outside a quoted field gives the result of the text with one of
  them.
\<close>

theorem section_ends_at_non_numeric_row:
  "weatherRows ds =
      List.map_filter (\<lambda>d. map_option (\<lambda>i. weatherOf i d) (rowIndex d)) (takeWhile dataRow ds)
   \<and> effortRows ds =
      List.map_filter (\<lambda>d. map_option (\<lambda>i. effortOf i d) (rowIndex d)) (takeWhile dataRow ds)
   \<and> ((\<forall>p \<in> set pre. \<not> isWeatherSentinel p) \<and> isWeatherSentinel r \<longrightarrow>
        scanWeather (pre @ r # ds) = weatherRows ds)
   \<and> ((\<forall>p \<in> set pre. \<not> isEffortSentinel p) \<and> isEffortSentinel r \<longrightarrow>
        scanEffort (pre @ r # ds) = effortRows ds)
   \<and> (parseCsvText maxRows maxCols t = Inr rs \<longrightarrow> [] \<notin> set rs)
   \<and> (\<not> inQuotes st \<and> list_all blankField (row st @ [field st]) \<and> length (rows st) \<le> maxRows \<longrightarrow>
        lexLoop maxRows maxCols st (LF # cs)
          = lexLoop maxRows maxCols (st\<lparr>field := [], row := []\<rparr>) cs)
   \<and> (normalizeNewlines t = a @ LF # LF # b \<and> \<not> quoteAfter False a \<longrightarrow>
        parseHistoricalResultsByCountCsv t = parseHistoricalResultsByCountCsv (a @ LF # b))"
  using weatherRows_takeWhile effortRows_takeWhile scanWeather_first scanEffort_first
    no_empty_row blank_line_no_row parse_blank_line
  by blast

theorem section_ends_at_non_numeric_row_witness:
  "isWeatherSentinel [''CountYear3'', ''LowTemp'']
   \<and> \<not> isWeatherSentinel [''x'']
   \<and> scanWeather ([[''x'']] @ [''CountYear3'', ''LowTemp''] # [[''1'', ''20''], [''0'', ''7''], [''2'', ''30''], [''n/a''], [''3'', ''40'']])
       = weatherRows [[''1'', ''20''], [''0'', ''7''], [''2'', ''30''], [''n/a''], [''3'', ''40'']]
   \<and> takeWhile dataRow [[''1'', ''20''], [''0'', ''7''], [''2'', ''30''], [''n/a''], [''3'', ''40'']]
       = [[''1'', ''20''], [''0'', ''7''], [''2'', ''30'']]
   \<and> map w_CountIndex (weatherRows [[''1'', ''20''], [''0'', ''7''], [''2'', ''30''], [''n/a''], [''3'', ''40'']])
       = [1, 2]
   \<and> isEffortSentinel [''CountYear5'']
   \<and> \<not> isEffortSentinel [''x'']
   \<and> scanEffort ([[''x'']] @ [''CountYear5''] # [[''1'', ''20''], [''0'', ''7''], [''2'', ''30''], [''n/a''], [''3'', ''40'']])
       = effortRows [[''1'', ''20''], [''0'', ''7''], [''2'', ''30''], [''n/a''], [''3'', ''40'']]
   \<and> map pe_CountIndex (effortRows [[''1'', ''20''], [''0'', ''7''], [''2'', ''30''], [''n/a''], [''3'', ''40'']])
       = [1, 2]
   \<and> parseCsvText 250000 200 ''1,20\<newline>\<newline>2,30'' = Inr [[''1'', ''20''], [''2'', ''30'']]
   \<and> [] \<notin> set [[''1'', ''20''], [''2'', ''30'']]
   \<and> list_all blankField ([[]] @ ['' ''])
   \<and> lexLoop 250000 200 \<lparr>rows = [[''a'']], row = [[]], field = '' '', inQuotes = False\<rparr> (LF # ''b'')
       = Inr \<lparr>rows = [[''a'']], row = [], field = ''b'', inQuotes = False\<rparr>
   \<and> normalizeNewlines ''1,20\<newline>\<newline>2,30'' = ''1,20'' @ LF # LF # ''2,30''
   \<and> \<not> quoteAfter False ''1,20''
   \<and> parseHistoricalResultsByCountCsv ''1,20\<newline>\<newline>2,30''
       = parseHistoricalResultsByCountCsv (''1,20'' @ LF # ''2,30'')"
proof -
  let ?ds = "[[''1'', ''20''], [''0'', ''7''], [''2'', ''30''], [''n/a''], [''3'', ''40'']]"
  let ?st = "\<lparr>rows = [[''a'']], row = [[]], field = '' '', inQuotes = False\<rparr>"
  have s: "isWeatherSentinel [''CountYear3'', ''LowTemp'']" "\<not> isWeatherSentinel [''x'']"
    by code_simp+
  have s': "isEffortSentinel [''CountYear5'']" "\<not> isEffortSentinel [''x'']"
    by code_simp+
  have t: "takeWhile dataRow ?ds = [[''1'', ''20''], [''0'', ''7''], [''2'', ''30'']]"
    by code_simp
  have i: "map w_CountIndex (weatherRows ?ds) = [1, 2]"
    by code_simp
  have i': "map pe_CountIndex (effortRows ?ds) = [1, 2]"
    by code_simp
  have l: "parseCsvText 250000 200 ''1,20\<newline>\<newline>2,30'' = Inr [[''1'', ''20''], [''2'', ''30'']]"
    by (simp add: lex_eval)
  have n: "normalizeNewlines ''1,20\<newline>\<newline>2,30'' = ''1,20'' @ LF # LF # ''2,30''"
    by (simp add: normalizeNewlines_def replaceCR_def LF_def CR_def)
  have q: "\<not> quoteAfter False ''1,20''"
    by (simp add: dquote_def)
  have k: "list_all blankField ([[]] @ ['' ''])"
    by (simp add: blankField_def trim_def isSpace_def)
  have w: "scanWeather ([[''x'']] @ [''CountYear3'', ''LowTemp''] # ?ds) = weatherRows ?ds
      \<and> [] \<notin> set [[''1'', ''20''], [''2'', ''30'']]
      \<and> lexLoop 250000 200 ?st (LF # ''b'') = lexLoop 250000 200 (?st\<lparr>field := [], row := []\<rparr>) ''b''
      \<and> parseHistoricalResultsByCountCsv ''1,20\<newline>\<newline>2,30''
          = parseHistoricalResultsByCountCsv (''1,20'' @ LF # ''2,30'')"
    using s l n q k
      section_ends_at_non_numeric_row [of ?ds "[[''x'']]" "[''CountYear3'', ''LowTemp'']"
        250000 200 "''1,20\<newline>\<newline>2,30''" "[[''1'', ''20''], [''2'', ''30'']]" ?st "''b''"
        "''1,20''" "''2,30''"]
    by simp
  have e: "scanEffort ([[''x'']] @ [''CountYear5''] # ?ds) = effortRows ?ds"
    using s' section_ends_at_non_numeric_row [of ?ds "[[''x'']]" "[''CountYear5'']"]
    by simp
  have b: "lexLoop 250000 200 (?st\<lparr>field := [], row := []\<rparr>) ''b''
      = Inr \<lparr>rows = [[''a'']], row = [], field = ''b'', inQuotes = False\<rparr>"
    by (simp add: dquote_def comma_def LF_def)
  show ?thesis
    using s s' t i i' l n q k w e b by simp
qed

text \<open>
  Claim C3 as the specification words it lets a blank line of the input end the section.
  In this export a blank line stands between the first and the second data row of the
  weather section and of the effort section; both sections still give the records with
  index 1 and 2.
\<close>

theorem blank_line_does_not_end_section_counterexample:
  "map_sum id (map w_CountIndex \<circ> weatherRaw)
      (parseHistoricalResultsByCountCsv
        ''CountYear3,LowTemp\<newline>1,20\<newline>\<newline>2,30\<newline>CountYear5\<newline>1,12/27/1999\<newline>\<newline>2,12/26/2000'')
     = Inr [1, 2]
   \<and> map_sum id (map pe_CountIndex \<circ> participantsEffort)
      (parseHistoricalResultsByCountCsv
        ''CountYear3,LowTemp\<newline>1,20\<newline>\<newline>2,30\<newline>CountYear5\<newline>1,12/27/1999\<newline>\<newline>2,12/26/2000'')
     = Inr [1, 2]"
proof -
  let ?g = "[[''CountYear3'', ''LowTemp''], [''1'', ''20''], [''2'', ''30''], [''CountYear5''],
      [''1'', ''12/27/1999''], [''2'', ''12/26/2000'']]"
  have h: "parseHistoricalResultsByCountCsv
        ''CountYear3,LowTemp\<newline>1,20\<newline>\<newline>2,30\<newline>CountYear5\<newline>1,12/27/1999\<newline>\<newline>2,12/26/2000''
      = Inr (extractTables ?g)"
    by (simp add: parseHistoricalResultsByCountCsv_def lex_eval)
  have w: "map w_CountIndex (weatherRaw (extractTables ?g)) = [1, 2]"
    by code_simp
  have e: "map pe_CountIndex (participantsEffort (extractTables ?g)) = [1, 2]"
    by code_simp
  show ?thesis
    unfolding h by (simp add: w e)
qed

subsection \<open>Where the caps bite\<close>

lemma lexLoop_columns:
  "length r \<le> maxCols \<Longrightarrow>
   lexLoop maxRows maxCols \<lparr>rows = rs, row = r, field = [], inQuotes = False\<rparr>
       (concat (replicate n ''a,'') @ rest) =
     (if length r + n \<le> maxCols
      then lexLoop maxRows maxCols
             \<lparr>rows = rs, row = r @ replicate n ''a'', field = [], inQuotes = False\<rparr> rest
      else Inl (TooManyColumns maxCols))"
proof (induction n arbitrary: r)
  case 0
  then show ?case by simp
next
  case (Suc n)
  have "lexLoop maxRows maxCols \<lparr>rows = rs, row = r, field = [], inQuotes = False\<rparr>
       (concat (replicate (Suc n) ''a,'') @ rest) =
     (if length r + 1 \<le> maxCols
      then lexLoop maxRows maxCols
             \<lparr>rows = rs, row = r @ [''a''], field = [], inQuotes = False\<rparr>
             (concat (replicate n ''a,'') @ rest)
      else Inl (TooManyColumns maxCols))"
    by (simp add: pushField_def dquote_def comma_def LF_def Let_def)
  also have "\<dots> = (if length r + Suc n \<le> maxCols
      then lexLoop maxRows maxCols
             \<lparr>rows = rs, row = r @ replicate (Suc n) ''a'', field = [], inQuotes = False\<rparr> rest
      else Inl (TooManyColumns maxCols))"
    using Suc.IH [of "r @ [''a'']"] by (simp add: replicate_append_same)
  finally show ?case .
qed

lemma popBlank_a: "popBlank (r @ [''a'']) = r @ [''a'']"
  by (simp add: popBlank_eq trim_def isSpace_def)

lemma lexLoop_rows:
  "length rs \<le> maxRows \<Longrightarrow>
   lexLoop maxRows maxCols \<lparr>rows = rs, row = [], field = [], inQuotes = False\<rparr>
       (concat (replicate n ''a\<newline>'') @ rest) =
     (if length rs + n \<le> maxRows
      then lexLoop maxRows maxCols
             \<lparr>rows = rs @ replicate n [''a''], row = [], field = [], inQuotes = False\<rparr> rest
      else Inl (TooManyRows maxRows))"
proof (induction n arbitrary: rs)
  case 0
  then show ?case by simp
next
  case (Suc n)
  have "lexLoop maxRows maxCols \<lparr>rows = rs, row = [], field = [], inQuotes = False\<rparr>
       (concat (replicate (Suc n) ''a\<newline>'') @ rest) =
     (if length rs + 1 \<le> maxRows
      then lexLoop maxRows maxCols
             \<lparr>rows = rs @ [[''a'']], row = [], field = [], inQuotes = False\<rparr>
             (concat (replicate n ''a\<newline>'') @ rest)
      else Inl (TooManyRows maxRows))"
    using popBlank_a [of "[]"]
    by (simp add: pushField_def pushRow_def dquote_def comma_def LF_def Let_def)
  also have "\<dots> = (if length rs + Suc n \<le> maxRows
      then lexLoop maxRows maxCols
             \<lparr>rows = rs @ replicate (Suc n) [''a''], row = [], field = [], inQuotes = False\<rparr> rest
      else Inl (TooManyRows maxRows))"
    using Suc.IH [of "rs @ [[''a'']]"] by (simp add: replicate_append_same)
  finally show ?case .
qed

lemma CR_notin_columns: "CR \<notin> set (concat (replicate n ''a,'') @ ''a'')"
  by (auto simp: CR_def)

lemma columns_at_cap:
  "parseCsvText maxRows maxCols (concat (replicate n ''a,'') @ ''a'') =
     (if n \<le> maxCols then Inr [replicate (Suc n) ''a''] else Inl (TooManyColumns maxCols))"
  using lexLoop_columns [where r = "[]" and rs = "[]" and n = n and rest = "''a''"
      and maxRows = maxRows and maxCols = maxCols] popBlank_a [of "replicate n ''a''"]
  by (simp add: parseCsvText_def normalizeNewlines_id [OF CR_notin_columns] lexer_init_def Let_def
      pushField_def pushRow_def dquote_def comma_def LF_def replicate_append_same)

lemma rows_at_cap:
  "parseCsvText maxRows maxCols (concat (replicate n ''a\<newline>'') @ ''a'') =
     (if n \<le> maxRows then Inr (replicate (Suc n) [''a'']) else Inl (TooManyRows maxRows))"
proof -
  have "CR \<notin> set (concat (replicate n ''a\<newline>'') @ ''a'')"
    by (auto simp: CR_def)
  then show ?thesis
    using lexLoop_rows [where rs = "[]" and n = n and rest = "''a''"
        and maxRows = maxRows and maxCols = maxCols] popBlank_a [of "[]"]
    by (simp add: parseCsvText_def normalizeNewlines_id lexer_init_def Let_def
        pushField_def pushRow_def dquote_def comma_def LF_def replicate_append_same)
qed

lemma rows_at_cap_newline:
  "parseCsvText maxRows maxCols (concat (replicate n ''a\<newline>'')) =
     (if n \<le> maxRows then Inr (replicate n [''a'']) else Inl (TooManyRows maxRows))"
proof -
  have "CR \<notin> set (concat (replicate n ''a\<newline>''))"
    by (auto simp: CR_def)
  moreover have "popBlank [[]] = []"
    by (simp add: popBlank_eq trim_def)
  ultimately show ?thesis
    using lexLoop_rows [where rs = "[]" and n = n and rest = "[]"
        and maxRows = maxRows and maxCols = maxCols]
    by (simp add: parseCsvText_def normalizeNewlines_id lexer_init_def Let_def
        pushField_def pushRow_def)
qed


text \<open>Within the caps the lexer does not throw.\<close>

lemma rawRowsFrom_hd:
  "rawRowsFrom q r f s \<noteq> [] \<and> length r < length (hd (rawRowsFrom q r f s))"
  by (induction q r f s rule: rawRowsFrom.induct) (auto simp: less_Suc_eq)

lemma length_rows_pushRow: "length (rows (pushRow st)) \<le> Suc (length (rows st))"
  by (simp add: pushRow_def Let_def)

lemma lexLoop_within_caps:
  assumes "\<forall>raw \<in> set (rawRowsFrom (inQuotes st) (row st) (field st) s). length raw \<le> Suc maxCols"
    and "length (rows st) + length (rawRowsFrom (inQuotes st) (row st) (field st) s) \<le> Suc maxRows"
  shows "\<exists>st'. lexLoop maxRows maxCols st s = Inr st'"
  using assms
proof (induction maxRows maxCols st s rule: lexLoop.induct)
  case (1 maxRows maxCols st)
  show ?case by simp
next
  case (2 maxRows maxCols st ch cs)
  show ?case
  proof (cases "inQuotes st")
    case True
    with "2.prems" "2.IH"(1,2,3) show ?thesis
      by (auto split: if_splits)
  next
    case q: False
    show ?thesis
    proof (cases "ch = dquote")
      case True
      with q "2.prems" "2.IH"(4) show ?thesis by auto
    next
      case nd: False
      show ?thesis
      proof (cases "ch = comma")
        case True
        have "length (row st @ [field st]) < length (hd (rawRowsFrom False (row st @ [field st]) [] cs))"
          and ne: "rawRowsFrom False (row st @ [field st]) [] cs \<noteq> []"
          using rawRowsFrom_hd [of False "row st @ [field st]" "[]" cs] by simp_all
        moreover have "length (hd (rawRowsFrom False (row st @ [field st]) [] cs)) \<le> Suc maxCols"
          using "2.prems"(1) q nd True ne by (auto simp: hd_in_set)
        ultimately have ok: "\<not> length (row (pushField st)) > maxCols"
          by (simp add: pushField_def)
        have "\<exists>st'. lexLoop maxRows maxCols (pushField st) cs = Inr st'"
          using q nd True ok "2.prems"
          by (intro "2.IH"(5)) (auto simp: pushField_def)
        with q nd True ok show ?thesis
          by (simp add: Let_def)
      next
        case nc: False
        show ?thesis
        proof (cases "ch = LF")
          case True
          have ne: "rawRowsFrom False [] [] cs \<noteq> []"
            using rawRowsFrom_hd [of False "[]" "[]" cs] by simp
          then have "length (rawRowsFrom False [] [] cs) \<ge> 1"
            by (cases "rawRowsFrom False [] [] cs") simp_all
          with "2.prems"(2) q nd nc True have "length (rows st) < maxRows"
            by simp
          have rp: "rows (pushField st) = rows st"
            by (simp add: pushField_def)
          have lp: "length (rows (pushRow (pushField st))) \<le> Suc (length (rows st))"
            using length_rows_pushRow [of "pushField st"] by (simp add: rp)
          with \<open>length (rows st) < maxRows\<close>
          have ok: "\<not> length (rows (pushRow (pushField st))) > maxRows"
            by simp
          have st1: "inQuotes (pushRow (pushField st)) = False" "row (pushRow (pushField st)) = []"
            "field (pushRow (pushField st)) = []"
            using q by (simp_all add: pushRow_def pushField_def Let_def)
          have "\<exists>st'. lexLoop maxRows maxCols (pushRow (pushField st)) cs = Inr st'"
          proof (rule "2.IH"(6))
            show "\<not> inQuotes st" "ch \<noteq> dquote" "ch \<noteq> comma" "ch = LF"
              using q nd nc True by simp_all
            show "pushRow (pushField st) = pushRow (pushField st)" ..
            show "\<not> maxRows < length (rows (pushRow (pushField st)))"
              using ok by simp
            show "\<forall>raw\<in>set (rawRowsFrom (inQuotes (pushRow (pushField st)))
                (row (pushRow (pushField st))) (field (pushRow (pushField st))) cs).
                length raw \<le> Suc maxCols"
              using "2.prems"(1) q nd nc True by (simp add: st1)
            show "length (rows (pushRow (pushField st))) +
                length (rawRowsFrom (inQuotes (pushRow (pushField st)))
                  (row (pushRow (pushField st))) (field (pushRow (pushField st))) cs)
                \<le> Suc maxRows"
              using "2.prems"(2) q nd nc True lp
              by (simp add: st1)
          qed
          with q nd nc True ok show ?thesis
            by (simp add: Let_def)
        next
          case False
          with q nd nc "2.prems" "2.IH"(7) show ?thesis by auto
        qed
      qed
    qed
  qed
qed

lemma within_caps_returns:
  assumes "\<forall>raw \<in> set (rawRows t). length raw \<le> Suc maxCols"
    and "length (rawRows t) \<le> Suc maxRows"
  shows "\<exists>rs. parseCsvText maxRows maxCols t = Inr rs"
proof -
  have "\<exists>st'. lexLoop maxRows maxCols lexer_init (normalizeNewlines t) = Inr st'"
    using assms by (intro lexLoop_within_caps) (auto simp: rawRows_def lexer_init_def)
  then show ?thesis
    by (auto simp: parseCsvText_def)
qed

text \<open>
  Claim C1 says that the call throws exactly when a row has more than 200 columns or the
  text more than 250,000 rows. One half holds: a text whose raw rows have at most 200
  fields each and are at most 250,000 makes the call return. The other half fails by
  one: the lexer tests the columns only after a comma and the rows only after a line
  feed, so the last field of a row and the last row of a text with no final line feed
  are never counted. With the caps of \<open>parseHistoricalResultsByCountCsv\<close>, a line of
  201 fields is accepted and only a line of 202 fields throws; 250,001 lines are
  accepted when the last one has no line feed, and throw when it has one.
\<close>

theorem caps_off_by_one:
  "((\<forall>raw \<in> set (rawRows t). length raw \<le> 200) \<and> length (rawRows t) \<le> 250000 \<longrightarrow>
      (\<exists>res. parseHistoricalResultsByCountCsv t = Inr res))
   \<and> parseHistoricalResultsByCountCsv (concat (replicate 200 ''a,'') @ ''a'')
     = Inr (extractTables [replicate 201 ''a''])
   \<and> parseHistoricalResultsByCountCsv (concat (replicate 201 ''a,'') @ ''a'')
     = Inl (TooManyColumns 200)
   \<and> parseHistoricalResultsByCountCsv (concat (replicate 250000 ''a\<newline>'') @ ''a'')
     = Inr (extractTables (replicate 250001 [''a'']))
   \<and> parseHistoricalResultsByCountCsv (concat (replicate 250001 ''a\<newline>''))
     = Inl (TooManyRows 250000)"
proof (intro conjI impI)
  assume a: "(\<forall>raw \<in> set (rawRows t). length raw \<le> 200) \<and> length (rawRows t) \<le> 250000"
  then have "\<forall>raw \<in> set (rawRows t). length raw \<le> Suc 200"
    by auto
  moreover from a have "length (rawRows t) \<le> Suc 250000"
    by simp
  ultimately have "\<exists>rs. parseCsvText 250000 200 t = Inr rs"
    by (rule within_caps_returns)
  then show "\<exists>res. parseHistoricalResultsByCountCsv t = Inr res"
    by (auto simp: parseHistoricalResultsByCountCsv_def)
next
  have "Suc 200 = 201" "Suc 250000 = 250001"
    by simp_all
  then have c: "parseCsvText 250000 200 (concat (replicate 200 ''a,'') @ ''a'') = Inr [replicate 201 ''a'']"
    and r: "parseCsvText 250000 200 (concat (replicate 250000 ''a\<newline>'') @ ''a'')
      = Inr (replicate 250001 [''a''])"
    using columns_at_cap [of 250000 200 200] rows_at_cap [of 250000 200 250000]
    by (simp_all only: le_refl if_True)
  show "parseHistoricalResultsByCountCsv (concat (replicate 200 ''a,'') @ ''a'')
     = Inr (extractTables [replicate 201 ''a''])"
    unfolding parseHistoricalResultsByCountCsv_def c by simp
  show "parseHistoricalResultsByCountCsv (concat (replicate 250000 ''a\<newline>'') @ ''a'')
     = Inr (extractTables (replicate 250001 [''a'']))"
    unfolding parseHistoricalResultsByCountCsv_def r by simp
  have "\<not> (201::nat) \<le> 200" "\<not> (250001::nat) \<le> 250000"
    by simp_all
  then have c': "parseCsvText 250000 200 (concat (replicate 201 ''a,'') @ ''a'') = Inl (TooManyColumns 200)"
    and r': "parseCsvText 250000 200 (concat (replicate 250001 ''a\<newline>'')) = Inl (TooManyRows 250000)"
    using columns_at_cap [of 250000 200 201] rows_at_cap_newline [of 250000 200 250001]
    by (simp_all only: if_False)
  show "parseHistoricalResultsByCountCsv (concat (replicate 201 ''a,'') @ ''a'')
     = Inl (TooManyColumns 200)"
    unfolding parseHistoricalResultsByCountCsv_def c' by simp
  show "parseHistoricalResultsByCountCsv (concat (replicate 250001 ''a\<newline>''))
     = Inl (TooManyRows 250000)"
    unfolding parseHistoricalResultsByCountCsv_def r' by simp
qed

theorem caps_off_by_one_witness:
  "rawRows ''a,b\<newline>c'' = [[''a'', ''b''], [''c'']]
   \<and> length [''a'', ''b''] \<le> 200 \<and> length [''c''] \<le> 200
   \<and> length [[''a'', ''b''], [''c'']] \<le> 250000
   \<and> (\<exists>res. parseHistoricalResultsByCountCsv ''a,b\<newline>c'' = Inr res)"
proof -
  have r: "rawRows ''a,b\<newline>c'' = [[''a'', ''b''], [''c'']]"
    by (simp add: rawRows_def normalizeNewlines_def replaceCR_def dquote_def comma_def LF_def
        CR_def)
  show ?thesis
    using r caps_off_by_one [of "''a,b\<newline>c''"] by simp
qed

end
